theory Spec2Isabelle
  imports Main "HOL-Library.Word"
begin

section \<open>Basic types\<close>

text \<open>
  Fixed-size byte arrays (\<open>AlignedBuffer<N>\<close>) are compared by content, so they are
  words of the same width; \<open>llarp_time_t\<close> is \<open>uint64_t\<close> (milliseconds), with the
  wrap-around of unsigned subtraction.
\<close>

type_synonym byte_t = "8 word"
type_synonym PubKey = "256 word"
type_synonym RouterID = "256 word"
type_synonym PathID_t = "128 word"
type_synonym llarp_time_t = "64 word"

record AddressInfo =
  ai_rank :: nat
  ai_ip :: "128 word"
  ai_port :: "16 word"

record RouterContact =
  pubkey :: PubKey
  enckey :: PubKey
  addrs :: "AddressInfo list"
  last_updated :: llarp_time_t
  signature :: "byte_t list"

text \<open>
  Modelled from the spec: \<open>RouterContact::IsPublicRouter\<close> is declared in
  router_contact.hpp, which is not among the sources. The spec: an RC is "public" iff it
  carries at least one address.
\<close>

definition IsPublicRouter :: "RouterContact \<Rightarrow> bool" where
  "IsPublicRouter r = (addrs r \<noteq> [])"

text \<open>
  What the node database calls but the sources do not define is a parameter:
  the signature check \<open>RouterContact::Verify\<close>, the encoder \<open>RouterContact::BEncode\<close>
  (\<open>None\<close> when it returns false), \<open>HexEncode\<close>, the join of two paths
  \<open>fs::path::operator/\<close> (fs.hpp is not among the sources, and the implementations of
  the join differ on empty and rooted operands), and the file system seen through
  \<open>std::ofstream\<close>: \<open>ofs_write fs path bytes\<close> opens \<open>path\<close> truncating, writes, closes
  and returns the stream's final state (\<open>True\<close> = good) with the new file system.
  The last parameter is the hash table: \<open>iteration_order es\<close> lists the keys in the
  order in which a \<open>std::unordered_map\<close> with the elements \<open>es\<close> iterates after an
  insertion; the standard leaves the order open, and a rehash may change it.
\<close>

record 'fs externals =
  rc_Verify :: "RouterContact \<Rightarrow> bool"
  rc_BEncode :: "RouterContact \<Rightarrow> byte_t list option"
  HexEncode :: "PubKey \<Rightarrow> string"
  path_append :: "string \<Rightarrow> string \<Rightarrow> string"
  ofs_write :: "'fs \<Rightarrow> string \<Rightarrow> byte_t list \<Rightarrow> bool \<times> 'fs"
  iteration_order :: "(PubKey \<times> RouterContact) list \<Rightarrow> PubKey list"

section \<open>Node database (nodedb.cpp)\<close>

text \<open>
  \<open>entries\<close> is a \<open>std::unordered_map\<close> from pubkey to RC: an association list in
  iteration order, with \<open>find\<close> as \<open>map_of\<close>. \<open>insert\<close> leaves an existing key, and its
  RC, as they are; with a new key the table holds one element more and iterates in the
  order the hash table gives (\<open>reorder\<close>; an order that is not a listing of the keys,
  each once, is ignored).
\<close>

record 'fs llarp_nodedb =
  entries :: "(PubKey \<times> RouterContact) list"
  nodePath :: string
  fs :: "'fs"

definition reorder ::
  "PubKey list \<Rightarrow> (PubKey \<times> RouterContact) list \<Rightarrow> (PubKey \<times> RouterContact) list" where
  "reorder order es =
     (if distinct order \<and> set order = fst ` set es
      then map (\<lambda>k. (k, the (map_of es k))) order
      else es)"

definition entries_insert ::
  "'fs externals \<Rightarrow> (PubKey \<times> RouterContact) list \<Rightarrow> PubKey \<Rightarrow> RouterContact \<Rightarrow>
     (PubKey \<times> RouterContact) list" where
  "entries_insert ext es k v =
     (case map_of es k of
        None \<Rightarrow> reorder (iteration_order ext (es @ [(k, v)])) (es @ [(k, v)])
      | Some _ \<Rightarrow> es)"

definition Has :: "'fs llarp_nodedb \<Rightarrow> PubKey \<Rightarrow> bool" where
  "Has db pk = (map_of (entries db) pk \<noteq> None)"

definition Get :: "'fs llarp_nodedb \<Rightarrow> PubKey \<Rightarrow> RouterContact option" where
  "Get db pk = map_of (entries db) pk"

definition RC_FILE_EXT :: string where
  "RC_FILE_EXT = ''.signed''"

text \<open>
  \<open>getRCFilePath\<close>: \<open>nodePath / skiplistDir / (hexString + RC_FILE_EXT)\<close>, where
  \<open>skiplistDir\<close> is the last character of the hex name (64 characters for a 32-byte key).
\<close>

definition getRCFilePath :: "'fs externals \<Rightarrow> 'fs llarp_nodedb \<Rightarrow> PubKey \<Rightarrow> string" where
  "getRCFilePath ext db pk =
     (let hexString = HexEncode ext pk;
          skiplistDir = [last hexString]
      in path_append ext (path_append ext (nodePath db) skiplistDir) (hexString @ RC_FILE_EXT))"

text \<open>\<open>llarp_nodedb::Insert\<close>: the returned flag and the database afterwards.\<close>

definition Insert ::
  "'fs externals \<Rightarrow> 'fs llarp_nodedb \<Rightarrow> RouterContact \<Rightarrow> bool \<times> 'fs llarp_nodedb" where
  "Insert ext db r =
     (let db1 = db\<lparr>entries := entries_insert ext (entries db) (pubkey r) r\<rparr>
      in case rc_BEncode ext r of
           None \<Rightarrow> (False, db1)
         | Some buf \<Rightarrow>
             (let filepath = getRCFilePath ext db1 (pubkey r);
                  (good, fs') = ofs_write ext (fs db1) filepath buf
              in if \<not> good then (False, db1\<lparr>fs := fs'\<rparr>) else (True, db1\<lparr>fs := fs'\<rparr>)))"

text \<open>\<open>llarp_nodedb::Remove\<close>; \<open>fs_remove\<close> stands for \<open>fs::remove\<close>.\<close>

definition Remove ::
  "'fs externals \<Rightarrow> ('fs \<Rightarrow> string \<Rightarrow> 'fs) \<Rightarrow> 'fs llarp_nodedb \<Rightarrow> PubKey \<Rightarrow> bool \<times> 'fs llarp_nodedb" where
  "Remove ext fs_remove db pk =
     (case map_of (entries db) pk of
        None \<Rightarrow> (False, db)
      | Some _ \<Rightarrow>
          (True, db\<lparr>entries := filter (\<lambda>e. fst e \<noteq> pk) (entries db),
                    fs := fs_remove (fs db) (getRCFilePath ext db pk)\<rparr>))"

subsection \<open>The asynchronous verify pipeline\<close>

text \<open>
  A \<open>llarp_async_verify_rc\<close> job carries the RC, the \<open>valid\<close> flag, the completion hook
  (a function pointer, possibly null) and the logic executor (a pointer, possibly null).
  Each worker function runs on one thread and may queue the next worker on another;
  the trace records, with the thread, each call of \<open>Insert\<close> and each call of the hook
  together with the value of \<open>valid\<close> the hook sees.
\<close>

datatype verify_hook = on_verify_server_rc_hook | on_verify_client_rc_hook

datatype thread = CryptoWorker | DiskWorker | LogicThread

datatype worker_fn = Crypto_verifyrc | Disk_setRC | Logic_callback

datatype verify_event =
    InsertCalled thread RouterContact
  | HookCalled thread verify_hook bool
  | VerifyLogWarn

record llarp_async_verify_rc =
  rc :: RouterContact
  valid :: bool
  hook :: "verify_hook option"
  logic :: "nat option"

record 'fs verify_state =
  vs_nodedb :: "'fs llarp_nodedb"
  vs_job :: llarp_async_verify_rc
  vs_trace :: "verify_event list"

datatype verify_error = NullLogic

text \<open>\<open>logic_threadworker_callback\<close>: call the request hook, if there is one.\<close>

definition logic_threadworker_callback ::
  "'fs verify_state \<Rightarrow> verify_error + ('fs verify_state \<times> (thread \<times> worker_fn) option)" where
  "logic_threadworker_callback st =
     (case hook (vs_job st) of
        Some h \<Rightarrow>
          Inr (st\<lparr>vs_trace := vs_trace st @ [HookCalled LogicThread h (valid (vs_job st))]\<rparr>, None)
      | None \<Rightarrow> Inr (st, None))"

text \<open>\<open>disk_threadworker_setRC\<close>: write it to disk, then go to the logic thread if the job has one.\<close>

definition disk_threadworker_setRC ::
  "'fs externals \<Rightarrow> 'fs verify_state \<Rightarrow>
     verify_error + ('fs verify_state \<times> (thread \<times> worker_fn) option)" where
  "disk_threadworker_setRC ext st =
     (let (ok, db') = Insert ext (vs_nodedb st) (rc (vs_job st));
          st' = st\<lparr>vs_nodedb := db',
                   vs_job := (vs_job st)\<lparr>valid := ok\<rparr>,
                   vs_trace := vs_trace st @ [InsertCalled DiskWorker (rc (vs_job st))]\<rparr>
      in if logic (vs_job st) \<noteq> None then Inr (st', Some (LogicThread, Logic_callback))
         else Inr (st', None))"

text \<open>
  \<open>crypto_threadworker_verifyrc\<close>: verify; a valid public router goes to the disk worker,
  anything else straight to the logic thread (\<open>verify_request->logic\<close> is dereferenced
  unchecked there).
\<close>

definition crypto_threadworker_verifyrc ::
  "'fs externals \<Rightarrow> 'fs verify_state \<Rightarrow>
     verify_error + ('fs verify_state \<times> (thread \<times> worker_fn) option)" where
  "crypto_threadworker_verifyrc ext st =
     (let r = rc (vs_job st);
          v = rc_Verify ext r;
          st1 = st\<lparr>vs_job := (vs_job st)\<lparr>valid := v\<rparr>\<rparr>
      in if v \<and> IsPublicRouter r then Inr (st1, Some (DiskWorker, Disk_setRC))
         else
           (let st2 = (if \<not> v then st1\<lparr>vs_trace := vs_trace st1 @ [VerifyLogWarn]\<rparr> else st1)
            in if logic (vs_job st) = None then Inl NullLogic
               else Inr (st2, Some (LogicThread, Logic_callback))))"

definition run_worker ::
  "'fs externals \<Rightarrow> worker_fn \<Rightarrow> 'fs verify_state \<Rightarrow>
     verify_error + ('fs verify_state \<times> (thread \<times> worker_fn) option)" where
  "run_worker ext w st =
     (case w of
        Crypto_verifyrc \<Rightarrow> crypto_threadworker_verifyrc ext st
      | Disk_setRC \<Rightarrow> disk_threadworker_setRC ext st
      | Logic_callback \<Rightarrow> logic_threadworker_callback st)"

text \<open>
  The thread pools and the logic executor run each queued job once; \<open>run_jobs n\<close> runs
  the chain of jobs for at most \<open>n\<close> hops (\<open>None\<close>: the chain is longer than \<open>n\<close>).
\<close>

fun run_jobs ::
  "'fs externals \<Rightarrow> nat \<Rightarrow> worker_fn \<Rightarrow> 'fs verify_state \<Rightarrow>
     (verify_error + 'fs verify_state) option" where
  "run_jobs ext 0 w st = None"
| "run_jobs ext (Suc n) w st =
     (case run_worker ext w st of
        Inl e \<Rightarrow> Some (Inl e)
      | Inr (st', None) \<Rightarrow> Some (Inr st')
      | Inr (st', Some (t, w')) \<Rightarrow> run_jobs ext n w' st')"

text \<open>\<open>llarp_nodedb_async_verify\<close>: switch to the crypto pool and continue there.\<close>

definition llarp_nodedb_async_verify ::
  "'fs externals \<Rightarrow> nat \<Rightarrow> 'fs llarp_nodedb \<Rightarrow> llarp_async_verify_rc \<Rightarrow>
     (verify_error + 'fs verify_state) option" where
  "llarp_nodedb_async_verify ext n db job =
     run_jobs ext n Crypto_verifyrc \<lparr>vs_nodedb = db, vs_job = job, vs_trace = []\<rparr>"

fun is_hook_call :: "verify_event \<Rightarrow> bool" where
  "is_hook_call (HookCalled _ _ _) = True"
| "is_hook_call _ = False"

subsection \<open>Random hop selection\<close>

text \<open>
  \<open>llarp::randint()\<close> is an input: \<open>rand i\<close> is the value of the \<open>i\<close>-th call.
  \<open>random_itr sz r\<close> is the position the iterator has after
  \<open>auto itr = entries.begin(); if(sz > 1) { auto idx = randint() % sz; if(idx) std::advance(itr, idx - 1); }\<close>.
\<close>

definition random_itr :: "nat \<Rightarrow> 64 word \<Rightarrow> nat" where
  "random_itr sz r =
     (if sz > 1 then (let idx = unat r mod sz in if idx \<noteq> 0 then idx - 1 else 0) else 0)"

text \<open>
  The \<open>do { ... } while(tries--)\<close> loop of \<open>select_random_hop\<close>. A \<open>continue\<close> in a
  do-while jumps to the loop condition, so the branch for a pick equal to \<open>prev\<close>
  decrements \<open>tries\<close> twice. The result is the RC written to \<open>result\<close> (\<open>None\<close>: the
  function returned false) and the number of \<open>randint\<close> calls made so far.
\<close>

fun select_hop_loop ::
  "(nat \<Rightarrow> 64 word) \<Rightarrow> nat \<Rightarrow> (PubKey \<times> RouterContact) list \<Rightarrow> RouterContact \<Rightarrow> nat \<Rightarrow>
     RouterContact option \<times> nat" where
  "select_hop_loop rand i es prev tries =
     (if pubkey prev = pubkey (snd (es ! random_itr (length es) (rand i))) then
        (if tries \<noteq> 0 then
           (if tries - 1 \<noteq> 0 then select_hop_loop rand (Suc i) es prev (tries - 2)
            else (None, Suc i))
         else (None, Suc i))
      else if addrs (snd (es ! random_itr (length es) (rand i))) \<noteq> [] then
        (Some (snd (es ! random_itr (length es) (rand i))), Suc i)
      else if tries \<noteq> 0 then select_hop_loop rand (Suc i) es prev (tries - 1)
      else (None, Suc i))"

declare select_hop_loop.simps [simp del]

definition select_random_hop ::
  "(nat \<Rightarrow> 64 word) \<Rightarrow> nat \<Rightarrow> 'fs llarp_nodedb \<Rightarrow> RouterContact \<Rightarrow> nat \<Rightarrow>
     RouterContact option \<times> nat" where
  "select_random_hop rand i db prev N =
     (let sz = length (entries db) in
      if sz < 3 then (None, i)
      else if N \<noteq> 0 then select_hop_loop rand i (entries db) prev 5
      else (Some (snd (entries db ! random_itr sz (rand i))), Suc i))"

text \<open>
  The selection of the sibling \<open>Router::GetRandomGoodRouter\<close>:
  \<open>if(sz > 1) std::advance(itr, randint() % sz)\<close>.
\<close>

definition GetRandomGoodRouter_itr :: "nat \<Rightarrow> 64 word \<Rightarrow> nat" where
  "GetRandomGoodRouter_itr sz r = (if sz > 1 then unat r mod sz else 0)"

section \<open>Router (router.cpp)\<close>

text \<open>
  Link layers and link messages are objects behind pointers; they are named by their
  address. What the router calls on them, and on the profiler, is a parameter:
  \<open>ILinkMessage::BEncode\<close> (\<open>None\<close> = false), \<open>ILinkLayer::HasSessionTo\<close>,
  \<open>ILinkLayer::SendTo\<close>, \<open>ILinkLayer::TryEstablishTo\<close>, \<open>RouterProfiling::IsBad\<close>,
  \<open>Bucket::HasNode\<close> of the DHT, and \<open>RouterContact::Verify(crypto, now)\<close>.
\<close>

type_synonym ILinkLayer = nat
type_synonym ILinkMessage = nat

record 'fs router_externals =
  nodedb_externals :: "'fs externals"
  fs_remove :: "'fs \<Rightarrow> string \<Rightarrow> 'fs"
  rc_Verify_now :: "RouterContact \<Rightarrow> bool"
  msg_BEncode :: "ILinkMessage \<Rightarrow> byte_t list option"
  link_HasSessionTo :: "ILinkLayer \<Rightarrow> RouterID \<Rightarrow> bool"
  link_SendTo :: "ILinkLayer \<Rightarrow> RouterID \<Rightarrow> byte_t list \<Rightarrow> bool"
  link_TryEstablishTo :: "ILinkLayer \<Rightarrow> RouterContact \<Rightarrow> bool"
  profiling_IsBad :: "RouterID \<Rightarrow> bool"
  dht_HasNode :: "RouterID \<Rightarrow> bool"

text \<open>Calls that leave the router (links, logger, profiler, DHT, executor) are recorded.\<close>

datatype router_event =
    LogDebug_pending_connect RouterID
  | QueueJob_on_try_connecting RouterID
  | LinkTryEstablishTo ILinkLayer RouterContact bool
  | LogError_did_not_attempt RouterID
  | LinkSendTo ILinkLayer RouterID "byte_t list" bool
  | LinkCloseSessionTo ILinkLayer RouterID
  | LogWarn_encode_failed
  | LogWarn_message_dropped RouterID
  | LogWarn_queue_full RouterID
  | LogWarn_flush_failed RouterID ILinkLayer
  | LogDebug_flush_outbound RouterID
  | ProfilingMarkTimeout RouterID
  | ProfilingMarkSuccess RouterID
  | DHTLookupRouter RouterID
  | DHTPutNode RouterContact
  | NodeDBInsertAsync RouterContact

datatype router_error = NullPointer | UseAfterFree

record TryConnectJob =
  job_rc :: RouterContact
  link :: "ILinkLayer option"
  triesLeft :: "16 word"

text \<open>
  \<open>outboundMessageQueue\<close> maps a peer to a \<open>std::queue\<close> of encoded messages (front
  first); \<open>pendingEstablishJobs\<close> maps a peer to its one \<open>TryConnectJob\<close>
  (\<open>insert\<close> returns an iterator-bool pair: the keys are unique).
\<close>

record 'fs Router =
  inboundLinks :: "ILinkLayer list"
  outboundLink :: "ILinkLayer option"
  outboundMessageQueue :: "RouterID \<rightharpoonup> byte_t list list"
  pendingEstablishJobs :: "RouterID \<rightharpoonup> TryConnectJob"
  pendingVerifyRC :: "RouterID \<rightharpoonup> llarp_async_verify_rc"
  validRouters :: "RouterID \<rightharpoonup> RouterContact"
  whitelistRouters :: bool
  lokinetRouters :: "RouterID set"
  nodedb :: "'fs llarp_nodedb"
  router_logic :: "nat option"
  events :: "router_event list"

definition emit :: "router_event list \<Rightarrow> 'fs Router \<Rightarrow> 'fs Router" where
  "emit es r = r\<lparr>events := events r @ es\<rparr>"

definition HasPendingConnectJob :: "'fs Router \<Rightarrow> RouterID \<Rightarrow> bool" where
  "HasPendingConnectJob r remote = (pendingEstablishJobs r remote \<noteq> None)"

definition IsServiceNode :: "'fs Router \<Rightarrow> bool" where
  "IsServiceNode r = (length (inboundLinks r) > 0)"

text \<open>
  The methods of \<open>TryConnectJob\<close> run on the job object stored under the key \<open>k\<close>
  (\<open>UseAfterFree\<close>: the object is gone); they name the peer by the job's own
  \<open>rc.pubkey\<close>.
\<close>

definition Attempt ::
  "'fs router_externals \<Rightarrow> RouterID \<Rightarrow> 'fs Router \<Rightarrow> router_error + 'fs Router" where
  "Attempt x k r =
     (case pendingEstablishJobs r k of
        None \<Rightarrow> Inl UseAfterFree
      | Some j \<Rightarrow>
          (let r1 = r\<lparr>pendingEstablishJobs :=
                        (pendingEstablishJobs r)(k \<mapsto> j\<lparr>triesLeft := triesLeft j - 1\<rparr>)\<rparr>
           in case link j of
                None \<Rightarrow> Inl NullPointer
              | Some l \<Rightarrow>
                  (let ok = link_TryEstablishTo x l (job_rc j)
                   in Inr (emit (LinkTryEstablishTo l (job_rc j) ok #
                                 (if \<not> ok then [LogError_did_not_attempt (pubkey (job_rc j))] else []))
                             r1))))"

definition ShouldRetry :: "TryConnectJob \<Rightarrow> bool" where
  "ShouldRetry j = (triesLeft j > 0)"

definition AttemptTimedout ::
  "'fs router_externals \<Rightarrow> RouterID \<Rightarrow> 'fs Router \<Rightarrow> router_error + 'fs Router" where
  "AttemptTimedout x k r =
     (case pendingEstablishJobs r k of
        None \<Rightarrow> Inl UseAfterFree
      | Some j \<Rightarrow>
          (let pk = pubkey (job_rc j);
               r1 = emit [ProfilingMarkTimeout pk] r
           in if ShouldRetry j then Attempt x k r1
              else
                (let r2 = (if \<not> IsServiceNode r1 \<and> profiling_IsBad x pk
                           then r1\<lparr>nodedb := snd (Remove (nodedb_externals x) (fs_remove x) (nodedb r1) pk)\<rparr>
                           else r1)
                 in Inr (r2\<lparr>pendingEstablishJobs := (pendingEstablishJobs r2)(pk := None)\<rparr>))))"

definition OnConnectTimeout ::
  "'fs router_externals \<Rightarrow> RouterID \<Rightarrow> 'fs Router \<Rightarrow> router_error + 'fs Router" where
  "OnConnectTimeout x session_pk r =
     (case pendingEstablishJobs r session_pk of
        Some _ \<Rightarrow> AttemptTimedout x session_pk r
      | None \<Rightarrow> Inr r)"

text \<open>\<open>on_try_connecting\<close>, the job queued on the logic executor by \<open>llarp_router_try_connect\<close>.\<close>

definition on_try_connecting ::
  "'fs router_externals \<Rightarrow> RouterID \<Rightarrow> 'fs Router \<Rightarrow> router_error + 'fs Router" where
  "on_try_connecting x k r = Attempt x k r"

definition llarp_router_try_connect ::
  "'fs Router \<Rightarrow> RouterContact \<Rightarrow> 16 word \<Rightarrow> bool \<times> 'fs Router" where
  "llarp_router_try_connect r remote numretries =
     (if HasPendingConnectJob r (pubkey remote)
      then (False, emit [LogDebug_pending_connect (pubkey remote)] r)
      else
        (True,
         emit [QueueJob_on_try_connecting (pubkey remote)]
           (r\<lparr>pendingEstablishJobs :=
                 (pendingEstablishJobs r)(pubkey remote \<mapsto>
                    \<lparr>job_rc = remote, link = outboundLink r, triesLeft = numretries\<rparr>)\<rparr>)))"

definition DiscardOutboundFor :: "'fs Router \<Rightarrow> RouterID \<Rightarrow> 'fs Router" where
  "DiscardOutboundFor r remote = r\<lparr>outboundMessageQueue := (outboundMessageQueue r)(remote := None)\<rparr>"

definition flush_one :: "'fs router_externals \<Rightarrow> ILinkLayer \<Rightarrow> RouterID \<Rightarrow> byte_t list \<Rightarrow> router_event list" where
  "flush_one x l remote buf =
     (let ok = link_SendTo x l remote buf
      in LinkSendTo l remote buf ok # (if \<not> ok then [LogWarn_flush_failed remote l] else []))"

definition FlushOutboundFor ::
  "'fs router_externals \<Rightarrow> 'fs Router \<Rightarrow> RouterID \<Rightarrow> ILinkLayer option \<Rightarrow> 'fs Router" where
  "FlushOutboundFor x r remote chosen =
     (let r0 = emit [LogDebug_flush_outbound remote] r
      in case outboundMessageQueue r0 remote of
           None \<Rightarrow> r0\<lparr>pendingEstablishJobs := (pendingEstablishJobs r0)(remote := None)\<rparr>
         | Some q \<Rightarrow>
             (case chosen of
                None \<Rightarrow>
                  (let r1 = DiscardOutboundFor r0 remote
                   in r1\<lparr>pendingEstablishJobs := (pendingEstablishJobs r1)(remote := None)\<rparr>)
              | Some l \<Rightarrow>
                  (let r1 = emit (concat (map (flush_one x l remote) q))
                              (r0\<lparr>outboundMessageQueue := (outboundMessageQueue r0)(remote \<mapsto> [])\<rparr>)
                   in r1\<lparr>pendingEstablishJobs := (pendingEstablishJobs r1)(remote := None)\<rparr>)))"

text \<open>\<open>Router::SendTo\<close>: the loop over the inbound links, then the function.\<close>

fun send_inbound ::
  "'fs router_externals \<Rightarrow> RouterID \<Rightarrow> byte_t list \<Rightarrow> ILinkLayer list \<Rightarrow> bool \<Rightarrow>
     router_event list \<times> bool" where
  "send_inbound x remote buf [] sent = ([], sent)"
| "send_inbound x remote buf (l # ls) sent =
     (if \<not> sent then
        (let ok = link_SendTo x l remote buf;
             (evs, s) = send_inbound x remote buf ls ok
         in (LinkSendTo l remote buf ok # evs, s))
      else send_inbound x remote buf ls sent)"

definition SendTo ::
  "'fs router_externals \<Rightarrow> 'fs Router \<Rightarrow> RouterID \<Rightarrow> ILinkMessage \<Rightarrow> ILinkLayer option \<Rightarrow>
     router_error + 'fs Router" where
  "SendTo x r remote msg selected =
     (case msg_BEncode x msg of
        None \<Rightarrow> Inr (emit [LogWarn_encode_failed] r)
      | Some buf \<Rightarrow>
          (let sel_ok = (case selected of None \<Rightarrow> False | Some l \<Rightarrow> link_SendTo x l remote buf);
               sel_evs = (case selected of None \<Rightarrow> [] | Some l \<Rightarrow> [LinkSendTo l remote buf sel_ok])
           in if sel_ok then Inr (emit sel_evs r)
              else
                (case outboundLink r of
                   None \<Rightarrow> Inl NullPointer
                 | Some ol \<Rightarrow>
                     (let sent = link_SendTo x ol remote buf;
                          (evs, sent') = send_inbound x remote buf (inboundLinks r) sent
                      in Inr (emit (sel_evs @ [LinkSendTo ol remote buf sent] @ evs @
                                    (if \<not> sent' then [LogWarn_message_dropped remote] else []))
                                r)))))"

definition MaxPendingSendQueueSize :: nat where
  "MaxPendingSendQueueSize = 8"

definition SendToOrQueue ::
  "'fs router_externals \<Rightarrow> 'fs Router \<Rightarrow> RouterID \<Rightarrow> ILinkMessage \<Rightarrow>
     router_error + (bool \<times> 'fs Router)" where
  "SendToOrQueue x r remote msg =
     (case find (\<lambda>l. link_HasSessionTo x l remote) (inboundLinks r) of
        Some l \<Rightarrow>
          (case SendTo x r remote msg (Some l) of Inl e \<Rightarrow> Inl e | Inr r' \<Rightarrow> Inr (True, r'))
      | None \<Rightarrow>
          (if (case outboundLink r of None \<Rightarrow> False | Some ol \<Rightarrow> link_HasSessionTo x ol remote)
           then (case SendTo x r remote msg (outboundLink r) of
                   Inl e \<Rightarrow> Inl e | Inr r' \<Rightarrow> Inr (True, r'))
           else
             (let r1 = (if outboundMessageQueue r remote = None
                        then r\<lparr>outboundMessageQueue := (outboundMessageQueue r)(remote \<mapsto> [])\<rparr>
                        else r)
              in case msg_BEncode x msg of
                   None \<Rightarrow> Inr (False, r1)
                 | Some buf \<Rightarrow>
                     (let q = (case outboundMessageQueue r1 remote of None \<Rightarrow> [] | Some q \<Rightarrow> q);
                          r2 = (if length q < MaxPendingSendQueueSize
                                then r1\<lparr>outboundMessageQueue :=
                                          (outboundMessageQueue r1)(remote \<mapsto> q @ [buf])\<rparr>
                                else emit [LogWarn_queue_full remote] r1)
                      in case Get (nodedb r2) remote of
                           Some remoteRC \<Rightarrow> Inr (True, snd (llarp_router_try_connect r2 remoteRC 10))
                         | None \<Rightarrow> Inr (True, emit [DHTLookupRouter remote] r2)))))"

definition HandleDHTLookupForSendTo ::
  "'fs router_externals \<Rightarrow> 'fs Router \<Rightarrow> RouterID \<Rightarrow> RouterContact list \<Rightarrow> 'fs Router" where
  "HandleDHTLookupForSendTo x r remote results =
     (case results of
        [] \<Rightarrow> DiscardOutboundFor r remote
      | res0 # _ \<Rightarrow>
          (if whitelistRouters r \<and> remote \<notin> lokinetRouters r then r
           else if rc_Verify_now x res0
           then snd (llarp_router_try_connect
                       (r\<lparr>nodedb := snd (Insert (nodedb_externals x) (nodedb r) res0)\<rparr>) res0 10)
           else DiscardOutboundFor r remote))"

definition GetLinkWithSessionByPubkey ::
  "'fs router_externals \<Rightarrow> 'fs Router \<Rightarrow> RouterID \<Rightarrow> ILinkLayer option" where
  "GetLinkWithSessionByPubkey x r pk =
     (if (case outboundLink r of None \<Rightarrow> False | Some ol \<Rightarrow> link_HasSessionTo x ol pk)
      then outboundLink r
      else find (\<lambda>l. link_HasSessionTo x l pk) (inboundLinks r))"

text \<open>
  The completion hooks of the verify pipeline. \<open>establish_job\<close> says whether
  \<open>ctx->establish_job\<close> is non-null; it was taken from \<open>pendingEstablishJobs\<close> under the
  RC's pubkey when the job was made, and is dereferenced unchecked.
\<close>

definition on_verify_client_rc ::
  "'fs router_externals \<Rightarrow> 'fs Router \<Rightarrow> llarp_async_verify_rc \<Rightarrow> 'fs Router" where
  "on_verify_client_rc x r job =
     (let pk = pubkey (rc job);
          r1 = r\<lparr>pendingEstablishJobs := (pendingEstablishJobs r)(pk := None)\<rparr>;
          r2 = FlushOutboundFor x r1 pk (GetLinkWithSessionByPubkey x r1 pk)
      in r2\<lparr>pendingVerifyRC := (pendingVerifyRC r2)(pk := None)\<rparr>)"

definition on_verify_server_rc ::
  "'fs router_externals \<Rightarrow> 'fs Router \<Rightarrow> llarp_async_verify_rc \<Rightarrow> bool \<Rightarrow>
     router_error + 'fs Router" where
  "on_verify_server_rc x r job establish_job =
     (let pk = pubkey (rc job) in
      if \<not> valid job then
        (if establish_job then
           (case pendingEstablishJobs r pk of
              None \<Rightarrow> Inl UseAfterFree
            | Some j \<Rightarrow>
                (case link j of
                   None \<Rightarrow> Inl NullPointer
                 | Some l \<Rightarrow>
                     (let r1 = DiscardOutboundFor (emit [LinkCloseSessionTo l (pubkey (job_rc j))] r) pk
                      in Inr (r1\<lparr>pendingVerifyRC := (pendingVerifyRC r1)(pk := None)\<rparr>))))
         else
           (let r1 = DiscardOutboundFor r pk
            in Inr (r1\<lparr>pendingVerifyRC := (pendingVerifyRC r1)(pk := None)\<rparr>)))
      else
        (let r1 = emit [DHTPutNode (rc job), ProfilingMarkSuccess pk]
                    (r\<lparr>validRouters := (validRouters r)(pk \<mapsto> rc job)\<rparr>)
         in if establish_job then
              (case pendingEstablishJobs r1 pk of
                 None \<Rightarrow> Inl UseAfterFree
               | Some j \<Rightarrow>
                   (let r2 = FlushOutboundFor x r1 (pubkey (job_rc j)) (link j)
                    in Inr (r2\<lparr>pendingVerifyRC := (pendingVerifyRC r2)(pk := None)\<rparr>)))
            else
              (let r2 = FlushOutboundFor x r1 pk (GetLinkWithSessionByPubkey x r1 pk)
               in Inr (r2\<lparr>pendingVerifyRC := (pendingVerifyRC r2)(pk := None)\<rparr>))))"

text \<open>
  \<open>Router::async_verify_RC\<close>: the job handed to \<open>llarp_nodedb_async_verify\<close> and whether
  its context carries an establish job (\<open>None\<close>: nothing was submitted).
\<close>

definition async_verify_RC ::
  "'fs Router \<Rightarrow> RouterContact \<Rightarrow> ILinkLayer option \<Rightarrow>
     router_error + ('fs Router \<times> (llarp_async_verify_rc \<times> bool) option)" where
  "async_verify_RC r remote lnk =
     (if pendingVerifyRC r (pubkey remote) \<noteq> None then Inr (r, None)
      else if IsPublicRouter remote \<and> whitelistRouters r \<and> pubkey remote \<notin> lokinetRouters r then
        (case lnk of
           None \<Rightarrow> Inl NullPointer
         | Some l \<Rightarrow> Inr (emit [LinkCloseSessionTo l (pubkey remote)] r, None))
      else
        (let job = \<lparr>rc = remote, valid = False,
                     hook = Some (if IsPublicRouter remote then on_verify_server_rc_hook
                                  else on_verify_client_rc_hook),
                     logic = router_logic r\<rparr>
         in Inr (r\<lparr>pendingVerifyRC := (pendingVerifyRC r)(pubkey remote \<mapsto> job)\<rparr>,
                 Some (job, pendingEstablishJobs r (pubkey remote) \<noteq> None))))"

text \<open>
  \<open>Router::CheckRenegotiateValid\<close>. \<open>llarp_nodedb::InsertAsync\<close> is not among the
  sources; the call is recorded.
\<close>

definition CheckRenegotiateValid ::
  "'fs router_externals \<Rightarrow> 'fs Router \<Rightarrow> RouterContact \<Rightarrow> RouterContact \<Rightarrow> bool \<times> 'fs Router" where
  "CheckRenegotiateValid x r newrc oldrc =
     (if pubkey newrc \<noteq> pubkey oldrc then (False, r)
      else
        (let r1 = emit [NodeDBInsertAsync newrc] r;
             r2 = (if dht_HasNode x (pubkey newrc) then emit [DHTPutNode newrc] r1 else r1)
         in (True, r2\<lparr>validRouters := (validRouters r2)(pubkey newrc \<mapsto> newrc)\<rparr>)))"

text \<open>
  The handlers of the logic thread that read or write \<open>pendingEstablishJobs\<close> or the
  outbound queue, as one step function. The other functions of router.cpp reach the
  pending jobs only through \<open>llarp_router_try_connect\<close>.
\<close>

datatype router_op =
    Op_try_connect RouterContact "16 word"
  | Op_on_try_connecting RouterID
  | Op_OnConnectTimeout RouterID
  | Op_FlushOutboundFor RouterID "ILinkLayer option"
  | Op_DiscardOutboundFor RouterID
  | Op_SendToOrQueue RouterID ILinkMessage
  | Op_HandleDHTLookupForSendTo RouterID "RouterContact list"
  | Op_on_verify_client_rc llarp_async_verify_rc
  | Op_on_verify_server_rc llarp_async_verify_rc bool
  | Op_async_verify_RC RouterContact "ILinkLayer option"
  | Op_CheckRenegotiateValid RouterContact RouterContact

fun router_step ::
  "'fs router_externals \<Rightarrow> router_op \<Rightarrow> 'fs Router \<Rightarrow> router_error + 'fs Router" where
  "router_step x (Op_try_connect remote n) r = Inr (snd (llarp_router_try_connect r remote n))"
| "router_step x (Op_on_try_connecting k) r = on_try_connecting x k r"
| "router_step x (Op_OnConnectTimeout k) r = OnConnectTimeout x k r"
| "router_step x (Op_FlushOutboundFor remote chosen) r = Inr (FlushOutboundFor x r remote chosen)"
| "router_step x (Op_DiscardOutboundFor remote) r = Inr (DiscardOutboundFor r remote)"
| "router_step x (Op_SendToOrQueue remote msg) r =
     (case SendToOrQueue x r remote msg of Inl e \<Rightarrow> Inl e | Inr (b, r') \<Rightarrow> Inr r')"
| "router_step x (Op_HandleDHTLookupForSendTo remote results) r =
     Inr (HandleDHTLookupForSendTo x r remote results)"
| "router_step x (Op_on_verify_client_rc job) r = Inr (on_verify_client_rc x r job)"
| "router_step x (Op_on_verify_server_rc job ej) r = on_verify_server_rc x r job ej"
| "router_step x (Op_async_verify_RC remote lnk) r =
     (case async_verify_RC r remote lnk of Inl e \<Rightarrow> Inl e | Inr (r', j) \<Rightarrow> Inr r')"
| "router_step x (Op_CheckRenegotiateValid newrc oldrc) r =
     Inr (snd (CheckRenegotiateValid x r newrc oldrc))"

text \<open>A run of handlers, each with the environment it meets; it stops at the first crash.\<close>

fun router_run ::
  "('fs router_externals \<times> router_op) list \<Rightarrow> 'fs Router \<Rightarrow> router_error + 'fs Router" where
  "router_run [] r = Inr r"
| "router_run ((x, op) # ops) r =
     (case router_step x op r of Inl e \<Rightarrow> Inl e | Inr r' \<Rightarrow> router_run ops r')"

text \<open>
  Notions the properties of the router are stated with: the queue of a peer (empty when
  the peer has no entry), a peer without a link session, the events a handler added, the
  bound on every queue, every job stored under its own RC's pubkey, and the handlers that
  name a peer when they flush its queue or time out its connect attempt.
\<close>

definition queue_of :: "'fs Router \<Rightarrow> RouterID \<Rightarrow> byte_t list list" where
  "queue_of r remote = (case outboundMessageQueue r remote of None \<Rightarrow> [] | Some q \<Rightarrow> q)"

definition no_session :: "'fs router_externals \<Rightarrow> 'fs Router \<Rightarrow> RouterID \<Rightarrow> bool" where
  "no_session x r remote =
     (find (\<lambda>l. link_HasSessionTo x l remote) (inboundLinks r) = None
      \<and> (case outboundLink r of None \<Rightarrow> True | Some ol \<Rightarrow> \<not> link_HasSessionTo x ol remote))"

definition new_events :: "'fs Router \<Rightarrow> 'fs Router \<Rightarrow> router_event list" where
  "new_events r r' = drop (length (events r)) (events r')"

definition queues_bounded :: "'fs Router \<Rightarrow> bool" where
  "queues_bounded r = (\<forall>pk. length (queue_of r pk) \<le> MaxPendingSendQueueSize)"

definition jobs_keyed :: "'fs Router \<Rightarrow> bool" where
  "jobs_keyed r = (\<forall>k. case pendingEstablishJobs r k of None \<Rightarrow> True | Some j \<Rightarrow> pubkey (job_rc j) = k)"

fun names_peer :: "router_op \<Rightarrow> RouterID \<Rightarrow> bool" where
  "names_peer (Op_FlushOutboundFor remote chosen) pk = (remote = pk)"
| "names_peer (Op_OnConnectTimeout k) pk = (k = pk)"
| "names_peer (Op_on_verify_client_rc job) pk = (pubkey (rc job) = pk)"
| "names_peer (Op_on_verify_server_rc job ej) pk = (pubkey (rc job) = pk)"
| "names_peer _ pk = False"

section \<open>Path context and paths (path.cpp)\<close>

record TransitHopInfo =
  txID :: PathID_t
  rxID :: PathID_t
  upstream :: RouterID
  downstream :: RouterID

record TransitHop =
  info :: TransitHopInfo
  hop_started :: llarp_time_t
  hop_lifetime :: llarp_time_t

text \<open>
  A hop handler is one of our own paths (by address) or a transit hop. The hop behind
  the \<open>shared_ptr\<close> is not mutated by the functions below, so it is kept by value.
\<close>

datatype IHopHandler = OwnPath nat | Transit TransitHop

text \<open>
  Modelled from the spec: the map types are declared in path.hpp, which is not among the
  sources. The spec: \<open>m_OurPaths: PathID \<rightarrow> PathSet\<close>, and \<open>m_TransitPaths\<close> is a multimap
  keyed under both txID and rxID. A \<open>std::multimap\<close> keeps elements of equal key in
  insertion order (\<open>insert\<close> puts the new element at the upper bound of its range), so a
  map is the list of its pairs in that order and \<open>equal_range\<close> filters it.
\<close>

record PathContext =
  m_OurPaths :: "(PathID_t \<times> nat) list"
  m_TransitPaths :: "(PathID_t \<times> TransitHop) list"
  m_AllowTransit :: bool

definition equal_range :: "('k \<times> 'v) list \<Rightarrow> 'k \<Rightarrow> 'v list" where
  "equal_range m k = map snd (filter (\<lambda>e. fst e = k) m)"

definition MapGet :: "('k \<times> 'v) list \<Rightarrow> 'k \<Rightarrow> ('v \<Rightarrow> bool) \<Rightarrow> ('v \<Rightarrow> 'h option) \<Rightarrow> 'h option" where
  "MapGet m k check get =
     (case find check (equal_range m k) of None \<Rightarrow> None | Some v \<Rightarrow> get v)"

definition MapHas :: "('k \<times> 'v) list \<Rightarrow> 'k \<Rightarrow> ('v \<Rightarrow> bool) \<Rightarrow> bool" where
  "MapHas m k check = (find check (equal_range m k) \<noteq> None)"

definition MapPut :: "('k \<times> 'v) list \<Rightarrow> 'k \<Rightarrow> 'v \<Rightarrow> ('k \<times> 'v) list" where
  "MapPut m k v = m @ [(k, v)]"

definition MapDel :: "('k \<times> 'v) list \<Rightarrow> 'k \<Rightarrow> ('v \<Rightarrow> bool) \<Rightarrow> ('k \<times> 'v) list" where
  "MapDel m k check = filter (\<lambda>e. \<not> (fst e = k \<and> check (snd e))) m"

definition AllowTransit :: "PathContext \<Rightarrow> PathContext" where
  "AllowTransit ctx = ctx\<lparr>m_AllowTransit := True\<rparr>"

definition AllowingTransit :: "PathContext \<Rightarrow> bool" where
  "AllowingTransit ctx = m_AllowTransit ctx"

definition HasTransitHop :: "PathContext \<Rightarrow> TransitHopInfo \<Rightarrow> bool" where
  "HasTransitHop ctx hinfo = MapHas (m_TransitPaths ctx) (txID hinfo) (\<lambda>hop. hinfo = info hop)"

definition PutTransitHop :: "PathContext \<Rightarrow> TransitHop \<Rightarrow> PathContext" where
  "PutTransitHop ctx hop =
     ctx\<lparr>m_TransitPaths :=
           MapPut (MapPut (m_TransitPaths ctx) (txID (info hop)) hop) (rxID (info hop)) hop\<rparr>"

text \<open>
  \<open>PathSet::GetByUpstream\<close> is not among the sources: \<open>ps_GetByUpstream\<close> is a parameter
  (\<open>None\<close> = nullptr).
\<close>

definition GetByUpstream ::
  "(nat \<Rightarrow> RouterID \<Rightarrow> PathID_t \<Rightarrow> nat option) \<Rightarrow> PathContext \<Rightarrow> RouterID \<Rightarrow> PathID_t \<Rightarrow>
     IHopHandler option" where
  "GetByUpstream ps_GetByUpstream ctx remote pid =
     (case MapGet (m_OurPaths ctx) pid (\<lambda>s. True)
             (\<lambda>p. map_option OwnPath (ps_GetByUpstream p remote pid)) of
        Some own \<Rightarrow> Some own
      | None \<Rightarrow>
          MapGet (m_TransitPaths ctx) pid (\<lambda>hop. upstream (info hop) = remote)
            (\<lambda>h. Some (Transit h)))"

definition GetByDownstream :: "PathContext \<Rightarrow> RouterID \<Rightarrow> PathID_t \<Rightarrow> IHopHandler option" where
  "GetByDownstream ctx remote pid =
     MapGet (m_TransitPaths ctx) pid (\<lambda>hop. downstream (info hop) = remote)
       (\<lambda>h. Some (Transit h))"

subsection \<open>Path\<close>

datatype PathStatus = ePathBuilding | ePathEstablished | ePathTimeout | ePathExpired

text \<open>
  Modelled from the spec: the \<open>PathRole\<close> flags and \<open>Path::SupportsAnyRoles\<close> are declared in
  path.hpp, which is not among the sources. The spec: a path has the role-set it supports
  (TransitTraffic, Exit, ServiceEndpoint, DHT); a path supports any of the given roles
  when its role-set meets them.
\<close>

datatype PathRole = ePathRoleTransit | ePathRoleExit | ePathRoleSVC | ePathRoleDHT

record Path =
  p_status :: PathStatus
  p_role :: "PathRole set"
  buildStarted :: llarp_time_t
  intro_expiresAt :: llarp_time_t
  m_LastRecvMessage :: llarp_time_t
  m_LastLatencyTestTime :: llarp_time_t
  m_LastLatencyTestID :: "64 word"

definition SupportsAnyRoles :: "Path \<Rightarrow> PathRole set \<Rightarrow> bool" where
  "SupportsAnyRoles p roles = (p_role p \<inter> roles \<noteq> {})"

text \<open>
  Modelled from the spec: \<open>Path::ExpireTime\<close> is declared in path.hpp, which is not among
  the sources. The spec: Established \<open>\<rightarrow>\<close> Expired at \<open>ExpireTime()\<close> (intro expiry).
\<close>

definition ExpireTime :: "Path \<Rightarrow> llarp_time_t" where
  "ExpireTime p = intro_expiresAt p"

text \<open>
  The timeouts are constants of path.hpp and \<open>m_CheckForDead\<close> is a \<open>std::function\<close>
  member (empty = \<open>None\<close>); \<open>randint\<close> is the value \<open>llarp::randint()\<close> returns.
\<close>

record path_externals =
  PATH_BUILD_TIMEOUT :: llarp_time_t
  PATH_ALIVE_TIMEOUT :: llarp_time_t
  m_CheckForDead :: "(Path \<Rightarrow> llarp_time_t \<Rightarrow> bool) option"
  randint :: "64 word"

datatype path_event =
    HandlePathBuildTimeout
  | LogInfo_is_building
  | LogInfo_is_built
  | MarkPathFail
  | SendRoutingMessage_PathLatency "64 word"

definition Expired :: "Path \<Rightarrow> llarp_time_t \<Rightarrow> bool" where
  "Expired p now =
     (if p_status p = ePathEstablished then now \<ge> ExpireTime p
      else if p_status p = ePathBuilding then False
      else True)"

definition EnterState :: "PathStatus \<Rightarrow> llarp_time_t \<Rightarrow> Path \<Rightarrow> Path \<times> path_event list" where
  "EnterState st now p =
     (if st = ePathTimeout then (p\<lparr>p_status := st\<rparr>, [HandlePathBuildTimeout])
      else if st = ePathBuilding then (p\<lparr>buildStarted := now, p_status := st\<rparr>, [LogInfo_is_building])
      else if st = ePathEstablished \<and> p_status p = ePathBuilding
           then (p\<lparr>p_status := st\<rparr>, [LogInfo_is_built])
      else (p\<lparr>p_status := st\<rparr>, []))"

text \<open>\<open>r->routerProfiling.MarkPathFail(this); EnterState(ePathTimeout, now);\<close>\<close>

definition fail_and_timeout :: "llarp_time_t \<Rightarrow> Path \<Rightarrow> path_event list \<Rightarrow> Path \<times> path_event list" where
  "fail_and_timeout now p evs =
     (let (p', evs') = EnterState ePathTimeout now p in (p', evs @ [MarkPathFail] @ evs'))"

text \<open>The dead check at the end of \<open>Path::Tick\<close>, for an established path.\<close>

definition check_dead ::
  "path_externals \<Rightarrow> llarp_time_t \<Rightarrow> llarp_time_t \<Rightarrow> Path \<Rightarrow> path_event list \<Rightarrow>
     Path \<times> path_event list" where
  "check_dead x now dlt p evs =
     (if SupportsAnyRoles p {ePathRoleExit, ePathRoleSVC}
         \<and> m_LastRecvMessage p \<noteq> 0 \<and> now > m_LastRecvMessage p
         \<and> now - m_LastRecvMessage p > PATH_ALIVE_TIMEOUT x
      then (p, evs)
      else if m_LastRecvMessage p \<noteq> 0 \<and> now > m_LastRecvMessage p
              \<and> now - m_LastRecvMessage p > PATH_ALIVE_TIMEOUT x
      then (case m_CheckForDead x of
              Some chk \<Rightarrow> (if chk p dlt then fail_and_timeout now p evs else (p, evs))
            | None \<Rightarrow> fail_and_timeout now p evs)
      else if dlt \<ge> 10000 \<and> m_LastRecvMessage p = 0 then fail_and_timeout now p evs
      else (p, evs))"

text \<open>The latency probe in the middle of \<open>Path::Tick\<close>; \<open>dlt\<close> keeps its value afterwards.\<close>

definition latency_probe ::
  "path_externals \<Rightarrow> llarp_time_t \<Rightarrow> llarp_time_t \<Rightarrow> Path \<Rightarrow> Path \<times> path_event list" where
  "latency_probe x now dlt p =
     (if dlt > 5000 \<and> m_LastLatencyTestID p = 0
      then (p\<lparr>m_LastLatencyTestID := randint x, m_LastLatencyTestTime := now\<rparr>,
            [SendRoutingMessage_PathLatency (randint x)])
      else (p, []))"

definition Tick :: "path_externals \<Rightarrow> llarp_time_t \<Rightarrow> Path \<Rightarrow> Path \<times> path_event list" where
  "Tick x now p =
     (if Expired p now then (p, [])
      else if p_status p = ePathBuilding \<and> now \<ge> buildStarted p
              \<and> now - buildStarted p \<ge> PATH_BUILD_TIMEOUT x
      then fail_and_timeout now p []
      else
        (let dlt = now - m_LastLatencyTestTime p;
             (p1, evs1) = latency_probe x now dlt p
         in if p_status p1 = ePathEstablished then check_dead x now dlt p1 evs1
            else (p1, evs1)))"

section \<open>DHT: FindRouter (dht/messages/findrouter.cpp)\<close>

type_synonym Key_t = "256 word"

record FindRouterMessage =
  From :: Key_t
  K :: RouterID
  iterative :: bool
  exploritory :: bool
  txid :: "64 word"
  version :: "64 word"
  pathID :: PathID_t

datatype dht_reply =
    GotRouterMessage Key_t "64 word" "RouterContact list" bool
  | OtherReply nat

datatype dht_call =
    LookupRouterForPath RouterID "64 word" PathID_t Key_t
  | LookupRouterRelayed Key_t "64 word" Key_t bool
  | HandleExploritoryRouterLookup Key_t "64 word" RouterID
  | LogWarn_no_dht_transit Key_t
  | LogWarn_duplicate_FRM Key_t "64 word"

text \<open>
  Modelled from the spec: the holder behind \<open>pendingRouterLookups\<close> is declared in
  dht/context.hpp, which is not among the sources. The spec: duplicate relayed lookups with
  the same \<open>(from, txid)\<close> are rejected; \<open>HasPendingLookupFrom\<close> is membership of that pair
  among the pending ones.
\<close>

record 'fs dht_Context =
  allowTransit :: bool
  ourKey :: Key_t
  pendingRouterLookups :: "(Key_t \<times> 64 word) list"
  dht_router_rc :: RouterContact
  dht_router_nodedb :: "'fs llarp_nodedb"
  dht_router_pathContext :: PathContext

definition HasPendingLookupFrom :: "(Key_t \<times> 64 word) list \<Rightarrow> Key_t \<times> 64 word \<Rightarrow> bool" where
  "HasPendingLookupFrom pending owner = (owner \<in> set pending)"

text \<open>
  The rest of the DHT context is a parameter: \<open>Bucket::FindClosest\<close>, what
  \<open>HandleExploritoryRouterLookup\<close> returns and appends to the replies, what
  \<open>LookupRouterRelayed\<close> appends to the replies, and \<open>PathSet::GetByUpstream\<close>.
\<close>

record dht_externals =
  nodes_FindClosest :: "Key_t \<Rightarrow> Key_t option"
  explore_result :: "Key_t \<Rightarrow> 64 word \<Rightarrow> RouterID \<Rightarrow> bool \<times> dht_reply list"
  relayed_replies :: "Key_t \<Rightarrow> 64 word \<Rightarrow> Key_t \<Rightarrow> bool \<Rightarrow> dht_reply list"
  pathset_GetByUpstream :: "nat \<Rightarrow> RouterID \<Rightarrow> PathID_t \<Rightarrow> nat option"

text \<open>
  Both handlers return the flag, the \<open>replies\<close> vector afterwards, and the calls made
  into the DHT context and the logger.
\<close>

definition RelayedFindRouterMessage_HandleMessage ::
  "dht_externals \<Rightarrow> 'fs dht_Context \<Rightarrow> FindRouterMessage \<Rightarrow> dht_reply list \<Rightarrow>
     bool \<times> dht_reply list \<times> dht_call list" where
  "RelayedFindRouterMessage_HandleMessage x dht m replies =
     (if K m = ourKey dht then
        (case GetByUpstream (pathset_GetByUpstream x) (dht_router_pathContext dht) (K m) (pathID m) of
           Some path \<Rightarrow> (True, replies @ [GotRouterMessage (K m) (txid m) [dht_router_rc dht] False], [])
         | None \<Rightarrow> (False, replies, []))
      else
        (case Get (dht_router_nodedb dht) (K m) of
           Some found \<Rightarrow> (True, replies @ [GotRouterMessage (K m) (txid m) [found] False], [])
         | None \<Rightarrow>
             (case nodes_FindClosest x (K m) of
                Some peer \<Rightarrow> (True, replies, [LookupRouterForPath (K m) (txid m) (pathID m) peer])
              | None \<Rightarrow> (True, replies, []))))"

definition FindRouterMessage_HandleMessage ::
  "dht_externals \<Rightarrow> 'fs dht_Context \<Rightarrow> FindRouterMessage \<Rightarrow> dht_reply list \<Rightarrow>
     bool \<times> dht_reply list \<times> dht_call list" where
  "FindRouterMessage_HandleMessage x dht m replies =
     (if \<not> allowTransit dht then (False, replies, [LogWarn_no_dht_transit (From m)])
      else if HasPendingLookupFrom (pendingRouterLookups dht) (From m, txid m)
      then (False, replies, [LogWarn_duplicate_FRM (From m) (txid m)])
      else if exploritory m then
        (let (b, more) = explore_result x (From m) (txid m) (K m)
         in (b, replies @ more, [HandleExploritoryRouterLookup (From m) (txid m) (K m)]))
      else
        (case Get (dht_router_nodedb dht) (K m) of
           Some found \<Rightarrow> (True, replies @ [GotRouterMessage (K m) (txid m) [found] False], [])
         | None \<Rightarrow>
             (True, replies @ relayed_replies x (From m) (txid m) (K m) (\<not> iterative m),
              [LookupRouterRelayed (From m) (txid m) (K m) (\<not> iterative m)])))"

text \<open>Which calls forward a lookup to another peer.\<close>

fun is_forwarded_lookup :: "dht_call \<Rightarrow> bool" where
  "is_forwarded_lookup (LookupRouterForPath _ _ _ _) = True"
| "is_forwarded_lookup (LookupRouterRelayed _ _ _ _) = True"
| "is_forwarded_lookup (HandleExploritoryRouterLookup _ _ _) = True"
| "is_forwarded_lookup _ = False"

section \<open>Concrete inputs\<close>

text \<open>
  A small world to run the definitions in: files are a map from path to contents, a
  signature is accepted when it is not empty, the encoding of an RC is its signature,
  every key has the hex name \<open>0a\<close>, paths are joined with one slash (none after an empty
  path or a trailing slash), writing succeeds below \<open>netdb\<close> only, and the hash table
  iterates the newest key first.
\<close>

definition ex_addr :: AddressInfo where
  "ex_addr = \<lparr>ai_rank = 1, ai_ip = 1, ai_port = 1090\<rparr>"

definition ex_rc :: "PubKey \<Rightarrow> AddressInfo list \<Rightarrow> byte_t list \<Rightarrow> RouterContact" where
  "ex_rc k as sig = \<lparr>pubkey = k, enckey = 0, addrs = as, last_updated = 0, signature = sig\<rparr>"

definition ex_ext :: "(string \<rightharpoonup> byte_t list) externals" where
  "ex_ext =
     \<lparr>rc_Verify = (\<lambda>r. signature r \<noteq> []),
      rc_BEncode = (\<lambda>r. Some (signature r)),
      HexEncode = (\<lambda>k. ''0a''),
      path_append = (\<lambda>p q. if p = [] then q
                           else if last p = CHR ''/'' then p @ q else p @ ''/'' @ q),
      ofs_write = (\<lambda>files path buf.
         if take 5 path = ''netdb'' then (True, files(path \<mapsto> buf)) else (False, files)),
      iteration_order = (\<lambda>es. rev (map fst es))\<rparr>"

definition ex_db :: "string \<Rightarrow> (PubKey \<times> RouterContact) list \<Rightarrow> (string \<rightharpoonup> byte_t list) llarp_nodedb" where
  "ex_db dir es = \<lparr>entries = es, nodePath = dir, fs = Map.empty\<rparr>"

definition ex_job :: "RouterContact \<Rightarrow> llarp_async_verify_rc" where
  "ex_job r = \<lparr>rc = r, valid = False, hook = Some on_verify_server_rc_hook, logic = Some 1\<rparr>"

definition ex_path :: "PathStatus \<Rightarrow> PathRole set \<Rightarrow> llarp_time_t \<Rightarrow> Path" where
  "ex_path st roles lastrecv =
     \<lparr>p_status = st, p_role = roles, buildStarted = 1000, intro_expiresAt = 601000,
      m_LastRecvMessage = lastrecv, m_LastLatencyTestTime = 2000, m_LastLatencyTestID = 5\<rparr>"

definition ex_rext :: "(string \<rightharpoonup> byte_t list) router_externals" where
  "ex_rext =
     \<lparr>nodedb_externals = ex_ext,
      fs_remove = (\<lambda>files path. files(path := None)),
      rc_Verify_now = (\<lambda>r. signature r \<noteq> []),
      msg_BEncode = (\<lambda>m. if m = 0 then None else Some [of_nat m]),
      link_HasSessionTo = (\<lambda>l pk. False),
      link_SendTo = (\<lambda>l pk buf. True),
      link_TryEstablishTo = (\<lambda>l r. True),
      profiling_IsBad = (\<lambda>pk. False),
      dht_HasNode = (\<lambda>pk. True)\<rparr>"

definition ex_router :: "(PubKey \<times> RouterContact) list \<Rightarrow> (string \<rightharpoonup> byte_t list) Router" where
  "ex_router es =
     \<lparr>inboundLinks = [], outboundLink = Some 1, outboundMessageQueue = Map.empty,
      pendingEstablishJobs = Map.empty, pendingVerifyRC = Map.empty, validRouters = Map.empty,
      whitelistRouters = False, lokinetRouters = {}, nodedb = ex_db ''netdb'' es,
      router_logic = Some 1, events = []\<rparr>"

definition ex_entries3 :: "(PubKey \<times> RouterContact) list" where
  "ex_entries3 = [(1, ex_rc 1 [ex_addr] [1]), (2, ex_rc 2 [ex_addr] [1]), (3, ex_rc 3 [ex_addr] [1])]"

definition ex_router_q :: "byte_t list list \<Rightarrow> (string \<rightharpoonup> byte_t list) Router" where
  "ex_router_q q = (ex_router [])\<lparr>outboundMessageQueue := [7 \<mapsto> q]\<rparr>"

definition ex_hop :: "PathID_t \<Rightarrow> PathID_t \<Rightarrow> RouterID \<Rightarrow> RouterID \<Rightarrow> TransitHop" where
  "ex_hop tx rx up down =
     \<lparr>info = \<lparr>txID = tx, rxID = rx, upstream = up, downstream = down\<rparr>,
      hop_started = 0, hop_lifetime = 600000\<rparr>"

definition ex_ctx :: PathContext where
  "ex_ctx = \<lparr>m_OurPaths = [], m_TransitPaths = [], m_AllowTransit = True\<rparr>"

definition ex_no_own_path :: "nat \<Rightarrow> RouterID \<Rightarrow> PathID_t \<Rightarrow> nat option" where
  "ex_no_own_path p remote pid = None"

definition ex_path_externals :: path_externals where
  "ex_path_externals =
     \<lparr>PATH_BUILD_TIMEOUT = 30000, PATH_ALIVE_TIMEOUT = 60000, m_CheckForDead = None, randint = 42\<rparr>"

definition ex_dht :: "(string \<rightharpoonup> byte_t list) dht_Context" where
  "ex_dht =
     \<lparr>allowTransit = False, ourKey = 100, pendingRouterLookups = [(5, 9)],
      dht_router_rc = ex_rc 100 [] [1],
      dht_router_nodedb = ex_db ''netdb'' [(7, ex_rc 7 [ex_addr] [1])],
      dht_router_pathContext = ex_ctx\<rparr>"

definition ex_dht_externals :: dht_externals where
  "ex_dht_externals =
     \<lparr>nodes_FindClosest = (\<lambda>k. Some 11),
      explore_result = (\<lambda>from t k. (True, [])),
      relayed_replies = (\<lambda>from t k recursive. []),
      pathset_GetByUpstream = ex_no_own_path\<rparr>"

definition ex_frm :: "RouterID \<Rightarrow> FindRouterMessage" where
  "ex_frm k = \<lparr>From = 5, K = k, iterative = False, exploritory = False, txid = 9, version = 0, pathID = 1\<rparr>"

section \<open>Properties of the node database\<close>

lemma map_of_reorder: "map_of (reorder order es) k = map_of es k"
proof (cases "distinct order \<and> set order = fst ` set es")
  case False
  then show ?thesis by (auto simp: reorder_def)
next
  case True
  then have keys: "set order = fst ` set es" by simp
  have "map_of (reorder order es) k =
          ((Some \<circ> (\<lambda>k. the (map_of es k))) |` set order) k"
    using True by (simp add: reorder_def map_of_map_restrict)
  also have "\<dots> = map_of es k"
  proof (cases "k \<in> set order")
    case True
    with keys have "map_of es k \<noteq> None" by (simp add: map_of_eq_None_iff)
    with True show ?thesis by (auto simp: restrict_map_def)
  next
    case False
    with keys have "map_of es k = None" by (simp add: map_of_eq_None_iff)
    with False show ?thesis by (simp add: restrict_map_def)
  qed
  finally show ?thesis .
qed

lemma map_of_entries_insert:
  "map_of (entries_insert ext es k v) k' =
     (if k' = k then (case map_of es k of None \<Rightarrow> Some v | Some old \<Rightarrow> Some old) else map_of es k')"
  by (auto simp: entries_insert_def map_of_reorder map_add_def split: option.splits)

lemma Insert_entries:
  "entries (snd (Insert ext db r)) = entries_insert ext (entries db) (pubkey r) r"
  by (simp add: Insert_def Let_def split: option.splits prod.splits)

lemma Insert_fst:
  "fst (Insert ext db r) =
     (case rc_BEncode ext r of None \<Rightarrow> False
      | Some buf \<Rightarrow> fst (ofs_write ext (fs db) (getRCFilePath ext db (pubkey r)) buf))"
  by (simp add: Insert_def Let_def getRCFilePath_def split: option.splits prod.splits)

lemma Insert_fs:
  "fs (snd (Insert ext db r)) =
     (case rc_BEncode ext r of None \<Rightarrow> fs db
      | Some buf \<Rightarrow> snd (ofs_write ext (fs db) (getRCFilePath ext db (pubkey r)) buf))"
  by (simp add: Insert_def Let_def getRCFilePath_def split: option.splits prod.splits)

text \<open>
  What \<open>Insert\<close> does keep. For a pubkey that has no entry yet, the RC is in the map
  afterwards, whatever the encoder and the write do. For every RC: when the encoder
  fails the result is false and the file system is not touched; otherwise the encoded
  RC is written to the file at \<open>getRCFilePath\<close>, the file system is what that write
  leaves, and the result is the final state of the output stream. An entry for the
  pubkey exists afterwards in every case.
\<close>

lemma Insert_fresh_commits:
  assumes "Get db (pubkey r) = None"
  shows "Get (snd (Insert ext db r)) (pubkey r) = Some r"
  using assms by (simp add: Get_def Insert_entries map_of_entries_insert)

lemma Insert_flag_and_file:
  "Has (snd (Insert ext db r)) (pubkey r)
   \<and> (rc_BEncode ext r = None \<longrightarrow> \<not> fst (Insert ext db r) \<and> fs (snd (Insert ext db r)) = fs db)
   \<and> (\<forall>buf. rc_BEncode ext r = Some buf \<longrightarrow>
         Insert ext db r =
           (fst (ofs_write ext (fs db) (getRCFilePath ext db (pubkey r)) buf),
            db\<lparr>entries := entries_insert ext (entries db) (pubkey r) r,
               fs := snd (ofs_write ext (fs db) (getRCFilePath ext db (pubkey r)) buf)\<rparr>))"
  by (auto simp: Has_def Insert_entries map_of_entries_insert Insert_def Let_def getRCFilePath_def
      split: option.splits prod.splits)

text \<open>
  C6. \<open>Insert\<close> does not commit the entry when the pubkey already has one. In a
  database that holds an RC for the key 7, inserting another RC of the same key returns
  true and writes the new RC to the file \<open>netdb/a/0a.signed\<close>, while the map keeps the
  old RC: \<open>Get\<close> still returns the old one, and memory and disk differ.
\<close>

theorem Insert_keeps_stale_entry:
  "Get (ex_db ''netdb'' [(7, ex_rc 7 [ex_addr] [1])]) 7 = Some (ex_rc 7 [ex_addr] [1])
   \<and> rc_BEncode ex_ext (ex_rc 7 [ex_addr] [2]) = Some [2]
   \<and> getRCFilePath ex_ext (ex_db ''netdb'' [(7, ex_rc 7 [ex_addr] [1])]) 7 = ''netdb/a/0a.signed''
   \<and> fst (Insert ex_ext (ex_db ''netdb'' [(7, ex_rc 7 [ex_addr] [1])]) (ex_rc 7 [ex_addr] [2]))
   \<and> fs (snd (Insert ex_ext (ex_db ''netdb'' [(7, ex_rc 7 [ex_addr] [1])]) (ex_rc 7 [ex_addr] [2])))
        ''netdb/a/0a.signed'' = Some [2]
   \<and> Get (snd (Insert ex_ext (ex_db ''netdb'' [(7, ex_rc 7 [ex_addr] [1])]) (ex_rc 7 [ex_addr] [2]))) 7
        = Some (ex_rc 7 [ex_addr] [1])
   \<and> Get (snd (Insert ex_ext (ex_db ''netdb'' [(7, ex_rc 7 [ex_addr] [1])]) (ex_rc 7 [ex_addr] [2]))) 7
        \<noteq> Some (ex_rc 7 [ex_addr] [2])"
  by (simp add: Insert_def entries_insert_def Get_def getRCFilePath_def RC_FILE_EXT_def Let_def
      ex_ext_def ex_db_def ex_rc_def)

text \<open>
  The same RC put into an empty database is committed; below a directory that refuses
  the write the result is false and the RC is in the map all the same.
\<close>

lemma Insert_fresh_example:
  "Get (snd (Insert ex_ext (ex_db ''netdb'' []) (ex_rc 7 [ex_addr] [2]))) 7 = Some (ex_rc 7 [ex_addr] [2])
   \<and> fst (Insert ex_ext (ex_db ''netdb'' []) (ex_rc 7 [ex_addr] [2]))
   \<and> \<not> fst (Insert ex_ext (ex_db ''/ro'' []) (ex_rc 7 [ex_addr] [2]))
   \<and> Get (snd (Insert ex_ext (ex_db ''/ro'' []) (ex_rc 7 [ex_addr] [2]))) 7 = Some (ex_rc 7 [ex_addr] [2])"
  by (simp add: Insert_def entries_insert_def reorder_def Get_def getRCFilePath_def RC_FILE_EXT_def
      Let_def ex_ext_def ex_db_def ex_rc_def)

subsection \<open>The verify pipeline\<close>

text \<open>
  With a logic executor and a hook, the chain of jobs started by
  \<open>llarp_nodedb_async_verify\<close> ends within three hops, in one of two ways.
\<close>

lemma async_verify_result:
  assumes "logic job = Some l" "hook job = Some h"
  shows "llarp_nodedb_async_verify ext (Suc (Suc (Suc n))) db job =
     Some (Inr (if rc_Verify ext (rc job) \<and> IsPublicRouter (rc job)
       then \<lparr>vs_nodedb = snd (Insert ext db (rc job)),
             vs_job = job\<lparr>valid := fst (Insert ext db (rc job))\<rparr>,
             vs_trace = [InsertCalled DiskWorker (rc job),
                         HookCalled LogicThread h (fst (Insert ext db (rc job)))]\<rparr>
       else \<lparr>vs_nodedb = db, vs_job = job\<lparr>valid := rc_Verify ext (rc job)\<rparr>,
             vs_trace = (if \<not> rc_Verify ext (rc job) then [VerifyLogWarn] else []) @
                [HookCalled LogicThread h (rc_Verify ext (rc job))]\<rparr>))"
  using assms
  by (auto simp: llarp_nodedb_async_verify_def run_worker_def crypto_threadworker_verifyrc_def
      disk_threadworker_setRC_def logic_threadworker_callback_def Let_def split: prod.splits)

text \<open>
  The jobs \<open>Router::async_verify_RC\<close> submits always carry a hook, and the router's
  logic executor.
\<close>

lemma async_verify_RC_job:
  assumes "async_verify_RC r remote lnk = Inr (r', Some (job, ej))"
  shows "rc job = remote \<and> \<not> valid job \<and> hook job \<noteq> None \<and> logic job = router_logic r"
  using assms
  by (auto simp: async_verify_RC_def Let_def split: if_splits option.splits)

text \<open>
  C1. For a job that carries a logic executor and a completion hook, the pipeline runs to
  its end (three hops are enough) and: \<open>Insert\<close> is called only on the disk worker, only
  for the job's RC, and only when the signature verified and the RC is a public router;
  every entry of the database afterwards was there before or is that verified RC, so a
  database of verified RCs stays one, and an RC that fails verification leaves the
  database as it was; the hook is called
  exactly once, on the logic thread, with the final \<open>valid\<close>, which is true only when
  the signature verified and, for a public router, \<open>Insert\<close> returned true; so when
  either stage fails the hook is called with \<open>valid = false\<close>.
\<close>

theorem async_verify_inserts_only_verified:
  assumes "logic job = Some l" and "hook job = Some h"
  shows "\<exists>st'. llarp_nodedb_async_verify ext (3 + n) db job = Some (Inr st')
     \<and> (\<forall>t r. InsertCalled t r \<in> set (vs_trace st') \<longrightarrow>
           t = DiskWorker \<and> r = rc job \<and> rc_Verify ext r \<and> IsPublicRouter r)
     \<and> (\<forall>pk r. map_of (entries (vs_nodedb st')) pk = Some r \<longrightarrow>
           map_of (entries db) pk = Some r \<or> (r = rc job \<and> rc_Verify ext r \<and> IsPublicRouter r))
     \<and> ((\<forall>pk r. map_of (entries db) pk = Some r \<longrightarrow> rc_Verify ext r) \<longrightarrow>
          (\<forall>pk r. map_of (entries (vs_nodedb st')) pk = Some r \<longrightarrow> rc_Verify ext r))
     \<and> (\<not> rc_Verify ext (rc job) \<longrightarrow> vs_nodedb st' = db)
     \<and> filter is_hook_call (vs_trace st') = [HookCalled LogicThread h (valid (vs_job st'))]
     \<and> valid (vs_job st') =
         (rc_Verify ext (rc job) \<and> (IsPublicRouter (rc job) \<longrightarrow> fst (Insert ext db (rc job))))
     \<and> (\<not> rc_Verify ext (rc job) \<or> (IsPublicRouter (rc job) \<and> \<not> fst (Insert ext db (rc job))) \<longrightarrow>
           HookCalled LogicThread h False \<in> set (vs_trace st'))"
proof -
  have three: "3 + n = Suc (Suc (Suc n))" by simp
  show ?thesis
  proof (cases "rc_Verify ext (rc job) \<and> IsPublicRouter (rc job)")
    case True
    then show ?thesis
      unfolding three async_verify_result [OF assms]
      by (auto simp: Insert_entries map_of_entries_insert split: option.splits if_splits)
  next
    case False
    then show ?thesis
      unfolding three async_verify_result [OF assms]
      by auto
  qed
qed

text \<open>An RC with an empty signature: the database is unchanged and the hook sees false.\<close>

theorem async_verify_inserts_only_verified_witness:
  "logic (ex_job (ex_rc 7 [ex_addr] [])) = Some 1
   \<and> hook (ex_job (ex_rc 7 [ex_addr] [])) = Some on_verify_server_rc_hook
   \<and> \<not> rc_Verify ex_ext (ex_rc 7 [ex_addr] [])
   \<and> (\<exists>st'. llarp_nodedb_async_verify ex_ext 3 (ex_db ''netdb'' []) (ex_job (ex_rc 7 [ex_addr] []))
               = Some (Inr st')
         \<and> vs_nodedb st' = ex_db ''netdb'' []
         \<and> filter is_hook_call (vs_trace st') = [HookCalled LogicThread on_verify_server_rc_hook False])"
proof -
  have l: "logic (ex_job (ex_rc 7 [ex_addr] [])) = Some 1"
    and h: "hook (ex_job (ex_rc 7 [ex_addr] [])) = Some on_verify_server_rc_hook"
    by (simp_all add: ex_job_def)
  have v: "\<not> rc_Verify ex_ext (rc (ex_job (ex_rc 7 [ex_addr] [])))"
    by (simp add: ex_job_def ex_ext_def ex_rc_def)
  from async_verify_inserts_only_verified [OF l h, of ex_ext 0 "ex_db ''netdb'' []"] v
  show ?thesis using l h by (auto simp: ex_job_def)
qed

section \<open>Properties of paths\<close>

text \<open>
  C10. \<open>Path::Expired(now)\<close> is false for a building path whatever \<open>now\<close> is, is
  \<open>now \<ge> ExpireTime()\<close> for an established path, and is true in the two other states;
  so once \<open>EnterState\<close> has put a path into Timeout or Expired, \<open>Expired\<close> holds of it at
  every time.
\<close>

theorem Expired_by_status:
  "Expired p now =
     (case p_status p of
        ePathBuilding \<Rightarrow> False
      | ePathEstablished \<Rightarrow> now \<ge> ExpireTime p
      | ePathTimeout \<Rightarrow> True
      | ePathExpired \<Rightarrow> True)
   \<and> p_status (fst (EnterState ePathTimeout t p)) = ePathTimeout
   \<and> p_status (fst (EnterState ePathExpired t p)) = ePathExpired
   \<and> Expired (fst (EnterState ePathTimeout t p)) now
   \<and> Expired (fst (EnterState ePathExpired t p)) now"
  by (simp add: Expired_def EnterState_def split: PathStatus.splits)

text \<open>A building path far in the future, and an established one at and just before its expiry.\<close>

theorem Expired_by_status_witness:
  "\<not> Expired (ex_path ePathBuilding {} 0) 99999999
   \<and> Expired (ex_path ePathEstablished {} 0) 601000
   \<and> \<not> Expired (ex_path ePathEstablished {} 0) 600999
   \<and> Expired (fst (EnterState ePathTimeout 5 (ex_path ePathEstablished {} 0))) 0"
  using Expired_by_status [of "ex_path ePathBuilding {} 0" 99999999 5]
    Expired_by_status [of "ex_path ePathEstablished {} 0" 601000 5]
    Expired_by_status [of "ex_path ePathEstablished {} 0" 600999 5]
    Expired_by_status [of "ex_path ePathEstablished {} 0" 0 5]
  by (simp add: ex_path_def ExpireTime_def)

section \<open>Properties of the random hop selection\<close>

lemma random_itr_lt: "2 \<le> sz \<Longrightarrow> random_itr sz r < sz - 1"
proof -
  assume sz: "2 \<le> sz"
  define idx where "idx = unat r mod sz"
  have "idx < sz" using sz by (simp add: idx_def)
  then have lt: "(if idx \<noteq> 0 then idx - 1 else 0) < sz - 1" using sz by auto
  have "random_itr sz r = (if idx \<noteq> 0 then idx - 1 else 0)"
    using sz by (simp add: random_itr_def Let_def idx_def)
  with lt show ?thesis by simp
qed

lemma pick_in_butlast:
  assumes "2 \<le> length es"
  shows "snd (es ! random_itr (length es) r) \<in> snd ` set (butlast es)"
proof -
  from random_itr_lt [OF assms] have lt: "random_itr (length es) r < length (butlast es)" by simp
  then have "butlast es ! random_itr (length es) r \<in> set (butlast es)" by (rule nth_mem)
  moreover have "butlast es ! random_itr (length es) r = es ! random_itr (length es) r"
    using lt by (simp add: nth_butlast)
  ultimately show ?thesis by (metis imageI)
qed

lemma select_hop_loop_sound:
  "2 \<le> length es \<Longrightarrow> fst (select_hop_loop rand i es prev tries) = Some r \<Longrightarrow>
     r \<in> snd ` set (butlast es) \<and> pubkey r \<noteq> pubkey prev \<and> addrs r \<noteq> []"
proof (induction rand i es prev tries rule: select_hop_loop.induct)
  case (1 rand i es prev tries)
  show ?case
    using "1.prems" "1.IH" pick_in_butlast [of es "rand i"]
    by (subst (asm) select_hop_loop.simps) (auto split: if_splits)
qed

lemma select_hop_loop_calls:
  "i < snd (select_hop_loop rand i es prev tries)
   \<and> snd (select_hop_loop rand i es prev tries) \<le> Suc (i + tries)"
proof (induction rand i es prev tries rule: select_hop_loop.induct)
  case (1 rand i es prev tries)
  show ?case
    using "1.IH"
    by (subst (1 2) select_hop_loop.simps) (auto split: if_splits)
qed

text \<open>
  What \<open>select_random_hop\<close> does keep: it refuses a database of fewer than three
  entries; a result is an entry of the database, and for \<open>N > 0\<close> it differs from \<open>prev\<close>
  and has an address; for \<open>N = 0\<close> there is always a result; and it draws at most six
  random numbers (one pick and up to five retries).
\<close>

lemma select_random_hop_sound:
  "(length (entries db) < 3 \<longrightarrow> select_random_hop rand i db prev N = (None, i))
   \<and> (\<forall>r. fst (select_random_hop rand i db prev N) = Some r \<longrightarrow>
         r \<in> snd ` set (butlast (entries db))
         \<and> (N \<noteq> 0 \<longrightarrow> pubkey r \<noteq> pubkey prev \<and> addrs r \<noteq> []))
   \<and> (N = 0 \<and> 3 \<le> length (entries db) \<longrightarrow> fst (select_random_hop rand i db prev N) \<noteq> None)
   \<and> snd (select_random_hop rand i db prev N) \<le> i + 6"
  using select_hop_loop_sound [of "entries db" rand i prev 5]
    select_hop_loop_calls [of i rand "entries db" prev 5]
    pick_in_butlast [of "entries db" "rand i"]
  by (auto simp: select_random_hop_def Let_def)

text \<open>
  C5. The pick is not uniform. On a database of three routers, all with an address and
  none equal to \<open>prev\<close>, no random numbers and no \<open>N\<close> make \<open>select_random_hop\<close> return the
  last one: \<open>randint() % 3\<close> = 0 and = 1 both leave the iterator on the first entry and
  = 2 moves it to the second. The sibling \<open>Router::GetRandomGoodRouter\<close> advances by
  \<open>randint() % sz\<close> and reaches the last entry.
\<close>

theorem select_random_hop_never_last:
  "\<forall>rand i N. fst (select_random_hop rand i (ex_db ''netdb'' ex_entries3) (ex_rc 9 [ex_addr] [1]) N)
       \<noteq> Some (ex_rc 3 [ex_addr] [1])
     \<and> random_itr 3 0 = 0 \<and> random_itr 3 1 = 0 \<and> random_itr 3 2 = 1
     \<and> GetRandomGoodRouter_itr 3 2 = 2"
proof -
  have "fst (select_random_hop rand i (ex_db ''netdb'' ex_entries3) (ex_rc 9 [ex_addr] [1]) N)
       \<noteq> Some (ex_rc 3 [ex_addr] [1])" for rand i N
  proof
    assume "fst (select_random_hop rand i (ex_db ''netdb'' ex_entries3) (ex_rc 9 [ex_addr] [1]) N)
       = Some (ex_rc 3 [ex_addr] [1])"
    with select_random_hop_sound [of "ex_db ''netdb'' ex_entries3" rand i "ex_rc 9 [ex_addr] [1]" N]
    have "ex_rc 3 [ex_addr] [1] \<in> snd ` set (butlast (entries (ex_db ''netdb'' ex_entries3)))"
      by blast
    then show False by (simp add: ex_db_def ex_entries3_def ex_rc_def)
  qed
  then show ?thesis
    by (simp add: random_itr_def GetRandomGoodRouter_itr_def)
qed

section \<open>Properties of the router\<close>

lemma CheckRenegotiateValid_ignores_Verify:
  "CheckRenegotiateValid (x\<lparr>rc_Verify_now := v\<rparr>) r newrc oldrc = CheckRenegotiateValid x r newrc oldrc"
  by (simp add: CheckRenegotiateValid_def)

text \<open>
  C8. \<open>CheckRenegotiateValid\<close> adopts an RC whose signature does not verify: for a new RC
  with the old identity and an empty signature it returns true, queues the RC for the
  node database, puts it into the DHT and makes it the peer's entry of \<open>validRouters\<close>.
  No verification is called on the way.
\<close>

theorem CheckRenegotiateValid_adopts_unverified:
  "\<not> rc_Verify_now ex_rext (ex_rc 7 [ex_addr] [])
   \<and> \<not> rc_Verify (nodedb_externals ex_rext) (ex_rc 7 [ex_addr] [])
   \<and> fst (CheckRenegotiateValid ex_rext (ex_router []) (ex_rc 7 [ex_addr] []) (ex_rc 7 [ex_addr] [1]))
   \<and> validRouters (snd (CheckRenegotiateValid ex_rext (ex_router []) (ex_rc 7 [ex_addr] []) (ex_rc 7 [ex_addr] [1]))) 7
       = Some (ex_rc 7 [ex_addr] [])
   \<and> events (snd (CheckRenegotiateValid ex_rext (ex_router []) (ex_rc 7 [ex_addr] []) (ex_rc 7 [ex_addr] [1])))
       = [NodeDBInsertAsync (ex_rc 7 [ex_addr] []), DHTPutNode (ex_rc 7 [ex_addr] [])]"
  by (simp add: CheckRenegotiateValid_def ex_rext_def ex_ext_def ex_router_def ex_rc_def emit_def Let_def)

text \<open>What each handler does to the pending jobs, the queues and the event log.\<close>

lemma new_events_append: "events r' = events r @ evs \<Longrightarrow> new_events r r' = evs"
  by (simp add: new_events_def)

lemma emit_fields:
  "events (emit es r) = events r @ es"
  "pendingEstablishJobs (emit es r) = pendingEstablishJobs r"
  "outboundMessageQueue (emit es r) = outboundMessageQueue r"
  "inboundLinks (emit es r) = inboundLinks r"
  "outboundLink (emit es r) = outboundLink r"
  "nodedb (emit es r) = nodedb r"
  by (simp_all add: emit_def)

lemma try_connect_pending:
  "pendingEstablishJobs (snd (llarp_router_try_connect r remote n)) =
     (if HasPendingConnectJob r (pubkey remote) then pendingEstablishJobs r
      else (pendingEstablishJobs r)(pubkey remote \<mapsto>
             \<lparr>job_rc = remote, link = outboundLink r, triesLeft = n\<rparr>))"
  by (simp add: llarp_router_try_connect_def emit_def)

lemma try_connect_queue:
  "outboundMessageQueue (snd (llarp_router_try_connect r remote n)) = outboundMessageQueue r"
  by (simp add: llarp_router_try_connect_def emit_def)

lemma Attempt_effect:
  assumes "Attempt x k r = Inr r'"
  shows "\<exists>j. pendingEstablishJobs r k = Some j
           \<and> pendingEstablishJobs r' = (pendingEstablishJobs r)(k \<mapsto> j\<lparr>triesLeft := triesLeft j - 1\<rparr>)"
    and "outboundMessageQueue r' = outboundMessageQueue r"
    and "\<exists>evs. events r' = events r @ evs"
  using assms
  by (auto simp: Attempt_def Let_def emit_def split: option.splits)

lemma AttemptTimedout_effect:
  assumes "AttemptTimedout x k r = Inr r'"
  shows "\<exists>j. pendingEstablishJobs r k = Some j
           \<and> pendingEstablishJobs r' =
               (if triesLeft j > 0 then (pendingEstablishJobs r)(k \<mapsto> j\<lparr>triesLeft := triesLeft j - 1\<rparr>)
                else (pendingEstablishJobs r)(pubkey (job_rc j) := None))"
    and "outboundMessageQueue r' = outboundMessageQueue r"
    and "\<exists>evs. events r' = events r @ evs"
proof -
  obtain j where j: "pendingEstablishJobs r k = Some j"
    using assms by (auto simp: AttemptTimedout_def split: option.splits)
  show "\<exists>j. pendingEstablishJobs r k = Some j
           \<and> pendingEstablishJobs r' =
               (if triesLeft j > 0 then (pendingEstablishJobs r)(k \<mapsto> j\<lparr>triesLeft := triesLeft j - 1\<rparr>)
                else (pendingEstablishJobs r)(pubkey (job_rc j) := None))"
  proof (cases "triesLeft j > 0")
    case True
    with assms j have "Attempt x k (emit [ProfilingMarkTimeout (pubkey (job_rc j))] r) = Inr r'"
      by (simp add: AttemptTimedout_def Let_def ShouldRetry_def)
    from Attempt_effect(1) [OF this] j True show ?thesis by (simp add: emit_fields)
  next
    case False
    with assms j show ?thesis
      by (auto simp: AttemptTimedout_def Let_def ShouldRetry_def emit_def)
  qed
  show "outboundMessageQueue r' = outboundMessageQueue r"
  proof (cases "triesLeft j > 0")
    case True
    with assms j have "Attempt x k (emit [ProfilingMarkTimeout (pubkey (job_rc j))] r) = Inr r'"
      by (simp add: AttemptTimedout_def Let_def ShouldRetry_def)
    from Attempt_effect(2) [OF this] show ?thesis by (simp add: emit_fields)
  next
    case False
    with assms j show ?thesis
      by (auto simp: AttemptTimedout_def Let_def ShouldRetry_def emit_def)
  qed
  show "\<exists>evs. events r' = events r @ evs"
  proof (cases "triesLeft j > 0")
    case True
    with assms j have "Attempt x k (emit [ProfilingMarkTimeout (pubkey (job_rc j))] r) = Inr r'"
      by (simp add: AttemptTimedout_def Let_def ShouldRetry_def)
    from Attempt_effect(3) [OF this] show ?thesis by (auto simp: emit_fields)
  next
    case False
    with assms j show ?thesis
      by (auto simp: AttemptTimedout_def Let_def ShouldRetry_def emit_def)
  qed
qed

lemma Discard_fields:
  "pendingEstablishJobs (DiscardOutboundFor r remote) = pendingEstablishJobs r"
  "outboundMessageQueue (DiscardOutboundFor r remote) = (outboundMessageQueue r)(remote := None)"
  "events (DiscardOutboundFor r remote) = events r"
  by (simp_all add: DiscardOutboundFor_def)

lemma Flush_effect:
  "pendingEstablishJobs (FlushOutboundFor x r remote chosen) = (pendingEstablishJobs r)(remote := None)"
  "\<exists>evs. events (FlushOutboundFor x r remote chosen) = events r @ LogDebug_flush_outbound remote # evs"
  "queue_of (FlushOutboundFor x r remote chosen) pk = (if pk = remote then [] else queue_of r pk)"
  by (auto simp: FlushOutboundFor_def Let_def emit_def DiscardOutboundFor_def queue_of_def
      split: option.splits)

lemma SendTo_effect:
  assumes "SendTo x r remote msg sel = Inr r'"
  shows "pendingEstablishJobs r' = pendingEstablishJobs r"
    and "outboundMessageQueue r' = outboundMessageQueue r"
    and "\<exists>evs. events r' = events r @ evs"
  using assms
  by (auto simp: SendTo_def Let_def emit_def split: option.splits if_splits prod.splits)


lemma SendToOrQueue_no_session:
  assumes "no_session x r remote"
  shows "SendToOrQueue x r remote msg =
     (case msg_BEncode x msg of
        None \<Rightarrow> Inr (False, r\<lparr>outboundMessageQueue := (outboundMessageQueue r)(remote \<mapsto> queue_of r remote)\<rparr>)
      | Some buf \<Rightarrow>
          (let r2 = (if length (queue_of r remote) < MaxPendingSendQueueSize
                     then r\<lparr>outboundMessageQueue :=
                              (outboundMessageQueue r)(remote \<mapsto> queue_of r remote @ [buf])\<rparr>
                     else emit [LogWarn_queue_full remote]
                            (r\<lparr>outboundMessageQueue := (outboundMessageQueue r)(remote \<mapsto> queue_of r remote)\<rparr>))
           in case Get (nodedb r) remote of
                Some remoteRC \<Rightarrow> Inr (True, snd (llarp_router_try_connect r2 remoteRC 10))
              | None \<Rightarrow> Inr (True, emit [DHTLookupRouter remote] r2)))"
proof -
  have upd: "(outboundMessageQueue r)(remote \<mapsto> q) = outboundMessageQueue r"
    if "outboundMessageQueue r remote = Some q" for q
    using that by (rule map_upd_triv)
  have same: "r\<lparr>outboundMessageQueue := outboundMessageQueue r\<rparr> = r" by simp
  show ?thesis
  proof (cases "outboundMessageQueue r remote")
    case None
    with assms show ?thesis
      by (auto simp: SendToOrQueue_def no_session_def queue_of_def Let_def emit_def
          split: option.splits)
  next
    case (Some q)
    with assms show ?thesis
      by (auto simp: SendToOrQueue_def no_session_def queue_of_def Let_def emit_def upd same
          split: option.splits)
  qed
qed

lemma SendToOrQueue_effect:
  assumes "SendToOrQueue x r remote msg = Inr (b, r')"
  shows "pendingEstablishJobs r pk \<noteq> None \<Longrightarrow> pendingEstablishJobs r' pk = pendingEstablishJobs r pk"
    and "jobs_keyed r \<Longrightarrow> jobs_keyed r'"
    and "queue_of r' pk = queue_of r pk \<or> length (queue_of r' pk) \<le> MaxPendingSendQueueSize"
    and "\<exists>evs. events r' = events r @ evs"
proof -
  consider (inb) l where "find (\<lambda>l. link_HasSessionTo x l remote) (inboundLinks r) = Some l"
        "SendTo x r remote msg (Some l) = Inr r'"
    | (outb) "SendTo x r remote msg (outboundLink r) = Inr r'"
    | (queue) "no_session x r remote"
    using assms
    by (auto simp: SendToOrQueue_def no_session_def split: option.splits sum.splits if_splits)
  note cases = this
  show "pendingEstablishJobs r pk \<noteq> None \<Longrightarrow> pendingEstablishJobs r' pk = pendingEstablishJobs r pk"
  proof (cases rule: cases)
    case inb then show ?thesis using SendTo_effect(1) by metis
  next
    case outb then show ?thesis using SendTo_effect(1) by metis
  next
    case queue
    assume "pendingEstablishJobs r pk \<noteq> None"
    then show ?thesis
      using assms unfolding SendToOrQueue_no_session [OF queue]
      by (auto simp: Let_def try_connect_pending emit_fields HasPendingConnectJob_def
          split: option.splits if_splits)
  qed
  show "jobs_keyed r \<Longrightarrow> jobs_keyed r'"
  proof (cases rule: cases)
    case inb then show "jobs_keyed r \<Longrightarrow> jobs_keyed r'"
      using SendTo_effect(1) [of x r remote msg "Some l" r'] by (simp add: jobs_keyed_def)
  next
    case outb then show "jobs_keyed r \<Longrightarrow> jobs_keyed r'"
      using SendTo_effect(1) [of x r remote msg "outboundLink r" r'] by (simp add: jobs_keyed_def)
  next
    case queue
    assume "jobs_keyed r"
    then show "jobs_keyed r'"
      using assms unfolding SendToOrQueue_no_session [OF queue]
      by (auto simp: Let_def try_connect_pending emit_fields HasPendingConnectJob_def jobs_keyed_def
          split: option.splits if_splits)
  qed
  show "queue_of r' pk = queue_of r pk \<or> length (queue_of r' pk) \<le> MaxPendingSendQueueSize"
  proof (cases rule: cases)
    case inb then show ?thesis
      using SendTo_effect(2) [of x r remote msg "Some l" r'] by (simp add: queue_of_def)
  next
    case outb then show ?thesis
      using SendTo_effect(2) [of x r remote msg "outboundLink r" r'] by (simp add: queue_of_def)
  next
    case queue
    show ?thesis
      using assms unfolding SendToOrQueue_no_session [OF queue]
      by (auto simp: Let_def try_connect_queue emit_fields queue_of_def
          split: option.splits if_splits)
  qed
  show "\<exists>evs. events r' = events r @ evs"
  proof (cases rule: cases)
    case inb then show ?thesis using SendTo_effect(3) by metis
  next
    case outb then show ?thesis using SendTo_effect(3) by metis
  next
    case queue
    show ?thesis
      using assms unfolding SendToOrQueue_no_session [OF queue]
      by (auto simp: Let_def llarp_router_try_connect_def emit_def
          split: option.splits if_splits)
  qed
qed


lemma queue_of_Discard:
  "queue_of (DiscardOutboundFor r remote) pk = (if pk = remote then [] else queue_of r pk)"
  by (simp add: queue_of_def DiscardOutboundFor_def)

lemma HandleDHTLookupForSendTo_effect:
  "pendingEstablishJobs r pk \<noteq> None \<Longrightarrow>
     pendingEstablishJobs (HandleDHTLookupForSendTo x r remote results) pk = pendingEstablishJobs r pk"
  "jobs_keyed r \<Longrightarrow> jobs_keyed (HandleDHTLookupForSendTo x r remote results)"
  "queue_of (HandleDHTLookupForSendTo x r remote results) pk = queue_of r pk
     \<or> queue_of (HandleDHTLookupForSendTo x r remote results) pk = []"
  "\<exists>evs. events (HandleDHTLookupForSendTo x r remote results) = events r @ evs"
  by (auto simp: HandleDHTLookupForSendTo_def try_connect_pending Discard_fields queue_of_Discard
      HasPendingConnectJob_def jobs_keyed_def queue_of_def try_connect_queue
      llarp_router_try_connect_def emit_def
      split: list.splits option.splits)

lemma on_verify_client_rc_effect:
  "pendingEstablishJobs (on_verify_client_rc x r job) = (pendingEstablishJobs r)(pubkey (rc job) := None)"
  "\<exists>evs. events (on_verify_client_rc x r job) = events r @ LogDebug_flush_outbound (pubkey (rc job)) # evs"
  "queue_of (on_verify_client_rc x r job) pk = (if pk = pubkey (rc job) then [] else queue_of r pk)"
proof -
  let ?pk = "pubkey (rc job)"
  let ?r1 = "r\<lparr>pendingEstablishJobs := (pendingEstablishJobs r)(?pk := None)\<rparr>"
  let ?r2 = "FlushOutboundFor x ?r1 ?pk (GetLinkWithSessionByPubkey x ?r1 ?pk)"
  have eq: "on_verify_client_rc x r job = ?r2\<lparr>pendingVerifyRC := (pendingVerifyRC ?r2)(?pk := None)\<rparr>"
    by (simp add: on_verify_client_rc_def Let_def)
  show "pendingEstablishJobs (on_verify_client_rc x r job) = (pendingEstablishJobs r)(?pk := None)"
    unfolding eq by (simp add: Flush_effect(1))
  show "\<exists>evs. events (on_verify_client_rc x r job) = events r @ LogDebug_flush_outbound ?pk # evs"
    unfolding eq using Flush_effect(2) [of x ?r1 ?pk "GetLinkWithSessionByPubkey x ?r1 ?pk"] by simp
  have "queue_of (on_verify_client_rc x r job) pk = queue_of ?r2 pk"
    unfolding eq by (simp add: queue_of_def)
  also have "\<dots> = (if pk = ?pk then [] else queue_of ?r1 pk)" by (rule Flush_effect(3))
  also have "queue_of ?r1 pk = queue_of r pk" by (simp add: queue_of_def)
  finally show "queue_of (on_verify_client_rc x r job) pk = (if pk = ?pk then [] else queue_of r pk)" .
qed

lemma on_verify_server_rc_effect:
  assumes "on_verify_server_rc x r job ej = Inr r'" and "jobs_keyed r"
  shows "pendingEstablishJobs r' = pendingEstablishJobs r
         \<or> (pendingEstablishJobs r' = (pendingEstablishJobs r)(pubkey (rc job) := None)
            \<and> LogDebug_flush_outbound (pubkey (rc job)) \<in> set (new_events r r'))"
    and "queue_of r' pk = queue_of r pk \<or> queue_of r' pk = []"
    and "\<exists>evs. events r' = events r @ evs"
proof -
  let ?pk = "pubkey (rc job)"
  let ?r1 = "emit [DHTPutNode (rc job), ProfilingMarkSuccess ?pk]
                    (r\<lparr>validRouters := (validRouters r)(?pk \<mapsto> rc job)\<rparr>)"
  have r1: "pendingEstablishJobs ?r1 = pendingEstablishJobs r"
    "events ?r1 = events r @ [DHTPutNode (rc job), ProfilingMarkSuccess ?pk]"
    "queue_of ?r1 pk = queue_of r pk"
    by (simp_all add: emit_def queue_of_def)
  consider (invalid) "\<not> valid job"
    | (flush) remote chosen where "valid job" "remote = ?pk"
        "r' = (FlushOutboundFor x ?r1 remote chosen)\<lparr>pendingVerifyRC :=
                 (pendingVerifyRC (FlushOutboundFor x ?r1 remote chosen))(?pk := None)\<rparr>"
  proof (cases "valid job")
    case False then show ?thesis using that by blast
  next
    case True
    show ?thesis
    proof (cases ej)
      case False
      with True assms(1) show ?thesis
        using that(2) [of ?pk "GetLinkWithSessionByPubkey x ?r1 ?pk"]
        by (auto simp: on_verify_server_rc_def Let_def)
    next
      case ej: True
      with True assms(1) obtain j where j: "pendingEstablishJobs r ?pk = Some j"
        by (auto simp: on_verify_server_rc_def Let_def emit_def split: option.splits)
      with assms(2) have k: "pubkey (job_rc j) = ?pk"
        by (auto simp: jobs_keyed_def split: option.splits dest: spec [of _ "?pk"])
      from True ej assms(1) j k show ?thesis
        using that(2) [of ?pk "link j"]
        by (auto simp: on_verify_server_rc_def Let_def r1)
    qed
  qed
  note cases = this
  show "pendingEstablishJobs r' = pendingEstablishJobs r
         \<or> (pendingEstablishJobs r' = (pendingEstablishJobs r)(?pk := None)
            \<and> LogDebug_flush_outbound ?pk \<in> set (new_events r r'))"
  proof (cases rule: cases)
    case invalid
    with assms(1) show ?thesis
      by (auto simp: on_verify_server_rc_def Let_def Discard_fields emit_def DiscardOutboundFor_def
          split: option.splits if_splits)
  next
    case (flush remote chosen)
    from Flush_effect(2) [of x ?r1 remote chosen] obtain evs where
      "events (FlushOutboundFor x ?r1 remote chosen) = events ?r1 @ LogDebug_flush_outbound remote # evs"
      by blast
    then have "events r' = events r @ ([DHTPutNode (rc job), ProfilingMarkSuccess ?pk]
                 @ LogDebug_flush_outbound ?pk # evs)"
      using flush by (simp add: r1)
    from new_events_append [OF this] have "LogDebug_flush_outbound ?pk \<in> set (new_events r r')"
      by simp
    moreover have "pendingEstablishJobs r' = (pendingEstablishJobs r)(?pk := None)"
      using flush by (simp add: Flush_effect(1) r1)
    ultimately show ?thesis by blast
  qed
  show "queue_of r' pk = queue_of r pk \<or> queue_of r' pk = []"
  proof (cases rule: cases)
    case invalid
    with assms(1) show ?thesis
      by (auto simp: on_verify_server_rc_def Let_def emit_def DiscardOutboundFor_def queue_of_def
          split: option.splits if_splits)
  next
    case (flush remote chosen)
    have "queue_of r' pk = queue_of (FlushOutboundFor x ?r1 remote chosen) pk"
      using flush by (simp add: queue_of_def)
    then show ?thesis by (simp add: Flush_effect(3) r1)
  qed
  show "\<exists>evs. events r' = events r @ evs"
  proof (cases rule: cases)
    case invalid
    with assms(1) show ?thesis
      by (auto simp: on_verify_server_rc_def Let_def emit_def DiscardOutboundFor_def
          split: option.splits if_splits)
  next
    case (flush remote chosen)
    from Flush_effect(2) [of x ?r1 remote chosen] flush show ?thesis by (auto simp: r1)
  qed
qed

lemma async_verify_RC_effect:
  assumes "async_verify_RC r remote lnk = Inr (r', j)"
  shows "pendingEstablishJobs r' = pendingEstablishJobs r"
    and "outboundMessageQueue r' = outboundMessageQueue r"
    and "\<exists>evs. events r' = events r @ evs"
  using assms
  by (auto simp: async_verify_RC_def Let_def emit_def split: if_splits option.splits)

lemma CheckRenegotiateValid_effect:
  "pendingEstablishJobs (snd (CheckRenegotiateValid x r newrc oldrc)) = pendingEstablishJobs r"
  "outboundMessageQueue (snd (CheckRenegotiateValid x r newrc oldrc)) = outboundMessageQueue r"
  "\<exists>evs. events (snd (CheckRenegotiateValid x r newrc oldrc)) = events r @ evs"
  by (auto simp: CheckRenegotiateValid_def Let_def emit_def)


lemma router_step_keyed:
  assumes "router_step x op r = Inr r'" and "jobs_keyed r"
  shows "jobs_keyed r'"
proof (cases op)
  case (Op_try_connect remote n)
  with assms show ?thesis
    by (auto simp: jobs_keyed_def try_connect_pending split: option.splits if_splits)
next
  case (Op_on_try_connecting k)
  with assms have "Attempt x k r = Inr r'" by (simp add: on_try_connecting_def)
  from Attempt_effect(1) [OF this] assms(2) show ?thesis
    by (auto simp: jobs_keyed_def split: option.splits if_splits)
next
  case (Op_OnConnectTimeout k)
  show ?thesis
  proof (cases "pendingEstablishJobs r k")
    case None
    with Op_OnConnectTimeout assms show ?thesis by (simp add: OnConnectTimeout_def)
  next
    case (Some j)
    with Op_OnConnectTimeout assms have "AttemptTimedout x k r = Inr r'"
      by (simp add: OnConnectTimeout_def)
    from AttemptTimedout_effect(1) [OF this] assms(2) show ?thesis
      by (auto simp: jobs_keyed_def split: option.splits if_splits)
  qed
next
  case (Op_FlushOutboundFor remote chosen)
  with assms show ?thesis
    by (auto simp: jobs_keyed_def Flush_effect(1) split: option.splits if_splits)
next
  case (Op_DiscardOutboundFor remote)
  with assms show ?thesis
    by (auto simp: jobs_keyed_def Discard_fields)
next
  case (Op_SendToOrQueue remote msg)
  with assms obtain b where "SendToOrQueue x r remote msg = Inr (b, r')"
    by (auto split: sum.splits)
  from SendToOrQueue_effect(2) [OF this assms(2)] show ?thesis .
next
  case (Op_HandleDHTLookupForSendTo remote results)
  with assms show ?thesis
    using HandleDHTLookupForSendTo_effect(2) by auto
next
  case (Op_on_verify_client_rc job)
  with assms show ?thesis
    by (auto simp: jobs_keyed_def on_verify_client_rc_effect(1) split: option.splits if_splits)
next
  case (Op_on_verify_server_rc job ej)
  with assms have "on_verify_server_rc x r job ej = Inr r'" by simp
  from on_verify_server_rc_effect(1) [OF this assms(2)] assms(2) show ?thesis
    by (auto simp: jobs_keyed_def split: option.splits if_splits)
next
  case (Op_async_verify_RC remote lnk)
  with assms obtain j where "async_verify_RC r remote lnk = Inr (r', j)"
    by (auto split: sum.splits)
  from async_verify_RC_effect(1) [OF this] assms(2) show ?thesis
    by (simp add: jobs_keyed_def)
next
  case (Op_CheckRenegotiateValid newrc oldrc)
  with assms show ?thesis
    by (auto simp: jobs_keyed_def CheckRenegotiateValid_effect(1))
qed

lemma router_step_erased:
  assumes "router_step x op r = Inr r'" and "jobs_keyed r"
    and "pendingEstablishJobs r pk \<noteq> None" and "pendingEstablishJobs r' pk = None"
  shows "LogDebug_flush_outbound pk \<in> set (new_events r r')
         \<or> (op = Op_OnConnectTimeout pk \<and> (\<exists>j. pendingEstablishJobs r pk = Some j \<and> triesLeft j = 0))"
proof (cases op)
  case (Op_try_connect remote n)
  with assms show ?thesis
    by (auto simp: try_connect_pending split: if_splits)
next
  case (Op_on_try_connecting k)
  with assms have "Attempt x k r = Inr r'" by (simp add: on_try_connecting_def)
  from Attempt_effect(1) [OF this] assms(3,4) show ?thesis
    by (auto split: if_splits)
next
  case (Op_OnConnectTimeout k)
  show ?thesis
  proof (cases "pendingEstablishJobs r k")
    case None
    with Op_OnConnectTimeout assms show ?thesis by (simp add: OnConnectTimeout_def)
  next
    case (Some j)
    with Op_OnConnectTimeout assms have "AttemptTimedout x k r = Inr r'"
      by (simp add: OnConnectTimeout_def)
    from AttemptTimedout_effect(1) [OF this] Some
    have r': "pendingEstablishJobs r' =
               (if triesLeft j > 0 then (pendingEstablishJobs r)(k \<mapsto> j\<lparr>triesLeft := triesLeft j - 1\<rparr>)
                else (pendingEstablishJobs r)(pubkey (job_rc j) := None))"
      by simp
    from assms(2) Some have k: "pubkey (job_rc j) = k"
      by (auto simp: jobs_keyed_def split: option.splits dest: spec [of _ k])
    from r' k assms(3,4) Some Op_OnConnectTimeout show ?thesis
      by (auto split: if_splits simp: word_gt_0)
  qed
next
  case (Op_FlushOutboundFor remote chosen)
  from Flush_effect(2) [of x r remote chosen] obtain evs where
    "events (FlushOutboundFor x r remote chosen) = events r @ LogDebug_flush_outbound remote # evs"
    by blast
  from new_events_append [OF this] Op_FlushOutboundFor assms show ?thesis
    by (auto simp: Flush_effect(1) split: if_splits)
next
  case (Op_DiscardOutboundFor remote)
  with assms show ?thesis by (auto simp: Discard_fields)
next
  case (Op_SendToOrQueue remote msg)
  with assms obtain b where "SendToOrQueue x r remote msg = Inr (b, r')"
    by (auto split: sum.splits)
  from SendToOrQueue_effect(1) [OF this assms(3)] assms(3,4) show ?thesis by simp
next
  case (Op_HandleDHTLookupForSendTo remote results)
  with assms show ?thesis
    using HandleDHTLookupForSendTo_effect(1) [OF assms(3), of x remote results] by auto
next
  case (Op_on_verify_client_rc job)
  from on_verify_client_rc_effect(2) [of x r job] obtain evs where
    "events (on_verify_client_rc x r job) = events r @ LogDebug_flush_outbound (pubkey (rc job)) # evs"
    by blast
  from new_events_append [OF this] Op_on_verify_client_rc assms show ?thesis
    by (auto simp: on_verify_client_rc_effect(1) split: if_splits)
next
  case (Op_on_verify_server_rc job ej)
  with assms have "on_verify_server_rc x r job ej = Inr r'" by simp
  from on_verify_server_rc_effect(1) [OF this assms(2)] assms(3,4) show ?thesis
    by (auto split: if_splits)
next
  case (Op_async_verify_RC remote lnk)
  with assms obtain j where "async_verify_RC r remote lnk = Inr (r', j)"
    by (auto split: sum.splits)
  from async_verify_RC_effect(1) [OF this] assms(3,4) show ?thesis by simp
next
  case (Op_CheckRenegotiateValid newrc oldrc)
  with assms show ?thesis by (auto simp: CheckRenegotiateValid_effect(1))
qed

lemma router_step_queue:
  assumes "router_step x op r = Inr r'"  and "jobs_keyed r"
  shows "queue_of r' pk = queue_of r pk \<or> length (queue_of r' pk) \<le> MaxPendingSendQueueSize"
proof (cases op)
  case (Op_try_connect remote n)
  with assms show ?thesis by (auto simp: queue_of_def try_connect_queue)
next
  case (Op_on_try_connecting k)
  with assms have "Attempt x k r = Inr r'" by (simp add: on_try_connecting_def)
  from Attempt_effect(2) [OF this] show ?thesis by (simp add: queue_of_def)
next
  case (Op_OnConnectTimeout k)
  show ?thesis
  proof (cases "pendingEstablishJobs r k")
    case None
    with Op_OnConnectTimeout assms show ?thesis by (simp add: OnConnectTimeout_def)
  next
    case (Some j)
    with Op_OnConnectTimeout assms have "AttemptTimedout x k r = Inr r'"
      by (simp add: OnConnectTimeout_def)
    from AttemptTimedout_effect(2) [OF this] show ?thesis by (simp add: queue_of_def)
  qed
next
  case (Op_FlushOutboundFor remote chosen)
  with assms show ?thesis by (auto simp: Flush_effect(3))
next
  case (Op_DiscardOutboundFor remote)
  with assms show ?thesis by (auto simp: queue_of_Discard)
next
  case (Op_SendToOrQueue remote msg)
  with assms obtain b where "SendToOrQueue x r remote msg = Inr (b, r')"
    by (auto split: sum.splits)
  from SendToOrQueue_effect(3) [OF this] show ?thesis .
next
  case (Op_HandleDHTLookupForSendTo remote results)
  with assms show ?thesis
    using HandleDHTLookupForSendTo_effect(3) [of x r remote results pk] by auto
next
  case (Op_on_verify_client_rc job)
  with assms show ?thesis by (auto simp: on_verify_client_rc_effect(3))
next
  case (Op_on_verify_server_rc job ej)
  with assms have "on_verify_server_rc x r job ej = Inr r'" by simp
  from on_verify_server_rc_effect(2) [OF this assms(2), of pk] show ?thesis by auto
next
  case (Op_async_verify_RC remote lnk)
  with assms obtain j where "async_verify_RC r remote lnk = Inr (r', j)"
    by (auto split: sum.splits)
  from async_verify_RC_effect(2) [OF this] show ?thesis by (simp add: queue_of_def)
next
  case (Op_CheckRenegotiateValid newrc oldrc)
  with assms show ?thesis by (auto simp: queue_of_def CheckRenegotiateValid_effect(2))
qed

lemma router_step_kept:
  assumes "router_step x op r = Inr r'" and "jobs_keyed r"
    and "\<not> names_peer op pk" and "HasPendingConnectJob r pk"
  shows "HasPendingConnectJob r' pk"
proof (rule ccontr)
  assume "\<not> HasPendingConnectJob r' pk"
  then have gone: "pendingEstablishJobs r' pk = None" by (simp add: HasPendingConnectJob_def)
  from assms(4) have had: "pendingEstablishJobs r pk \<noteq> None" by (simp add: HasPendingConnectJob_def)
  show False
  proof (cases op)
    case (Op_FlushOutboundFor remote chosen)
    with assms gone had show ?thesis by (auto simp: Flush_effect(1) split: if_splits)
  next
    case (Op_OnConnectTimeout k)
    with router_step_erased [OF assms(1,2) had gone] assms(3) have
      "LogDebug_flush_outbound pk \<in> set (new_events r r')" by auto
    moreover
    have "\<exists>evs. events r' = events r @ evs \<and> LogDebug_flush_outbound pk \<notin> set evs"
    proof (cases "pendingEstablishJobs r k")
      case None
      with Op_OnConnectTimeout assms show ?thesis by (simp add: OnConnectTimeout_def)
    next
      case (Some j)
      with Op_OnConnectTimeout assms(1) show ?thesis
        by (auto simp: OnConnectTimeout_def AttemptTimedout_def Attempt_def Let_def emit_def
            split: option.splits if_splits)
    qed
    then obtain evs where "events r' = events r @ evs" "LogDebug_flush_outbound pk \<notin> set evs"
      by blast
    with new_events_append [of r' r evs] have "LogDebug_flush_outbound pk \<notin> set (new_events r r')"
      by simp
    ultimately show ?thesis by simp
  next
    case (Op_on_verify_client_rc job)
    with assms gone had show ?thesis
      by (auto simp: on_verify_client_rc_effect(1) split: if_splits)
  next
    case (Op_on_verify_server_rc job ej)
    with assms have "on_verify_server_rc x r job ej = Inr r'" by simp
    from on_verify_server_rc_effect(1) [OF this assms(2)] gone had assms(3) Op_on_verify_server_rc
    show ?thesis by (auto split: if_splits)
  next
    case (Op_try_connect remote n)
    with router_step_erased [OF assms(1,2) had gone] assms(1) show ?thesis
      by (auto simp: new_events_def llarp_router_try_connect_def emit_def split: if_splits)
  next
    case (Op_on_try_connecting k)
    with assms have "Attempt x k r = Inr r'" by (simp add: on_try_connecting_def)
    from Attempt_effect(1) [OF this] gone had show ?thesis by (auto split: if_splits)
  next
    case (Op_DiscardOutboundFor remote)
    with assms gone had show ?thesis by (auto simp: Discard_fields)
  next
    case (Op_SendToOrQueue remote msg)
    with assms obtain b where "SendToOrQueue x r remote msg = Inr (b, r')"
      by (auto split: sum.splits)
    from SendToOrQueue_effect(1) [OF this had] gone had show ?thesis by simp
  next
    case (Op_HandleDHTLookupForSendTo remote results)
    with assms gone had show ?thesis
      using HandleDHTLookupForSendTo_effect(1) [OF had, of x remote results] by auto
  next
    case (Op_async_verify_RC remote lnk)
    with assms obtain j where "async_verify_RC r remote lnk = Inr (r', j)"
      by (auto split: sum.splits)
    from async_verify_RC_effect(1) [OF this] gone had show ?thesis by simp
  next
    case (Op_CheckRenegotiateValid newrc oldrc)
    with assms gone had show ?thesis by (auto simp: CheckRenegotiateValid_effect(1))
  qed
qed

lemma router_run_kept:
  "router_run ops r = Inr r' \<Longrightarrow> jobs_keyed r \<Longrightarrow> HasPendingConnectJob r pk \<Longrightarrow>
     (\<forall>xo \<in> set ops. \<not> names_peer (snd xo) pk) \<Longrightarrow> HasPendingConnectJob r' pk"
proof (induction ops arbitrary: r)
  case Nil
  then show ?case by simp
next
  case (Cons xo ops)
  obtain x op where xo: "xo = (x, op)" by (cases xo)
  with Cons.prems(1) obtain r1 where s: "router_step x op r = Inr r1" and rest: "router_run ops r1 = Inr r'"
    by (auto split: sum.splits)
  from Cons.prems(4) xo have np: "\<not> names_peer op pk" by simp
  show ?case
    using Cons.IH [OF rest router_step_keyed [OF s Cons.prems(2)]
        router_step_kept [OF s Cons.prems(2) np Cons.prems(3)]] Cons.prems(4)
    by simp
qed

lemma router_run_keyed:
  "router_run ops r = Inr r' \<Longrightarrow> jobs_keyed r \<Longrightarrow> jobs_keyed r'"
proof (induction ops arbitrary: r)
  case Nil
  then show ?case by simp
next
  case (Cons xo ops)
  obtain x op where xo: "xo = (x, op)" by (cases xo)
  with Cons.prems(1) obtain r1 where s: "router_step x op r = Inr r1" and rest: "router_run ops r1 = Inr r'"
    by (auto split: sum.splits)
  show ?case using Cons.IH [OF rest router_step_keyed [OF s Cons.prems(2)]] .
qed

lemma router_run_queues_bounded:
  "router_run ops r = Inr r' \<Longrightarrow> jobs_keyed r \<Longrightarrow> queues_bounded r \<Longrightarrow> queues_bounded r'"
proof (induction ops arbitrary: r)
  case Nil
  then show ?case by simp
next
  case (Cons xo ops)
  obtain x op where xo: "xo = (x, op)" by (cases xo)
  with Cons.prems(1) obtain r1 where s: "router_step x op r = Inr r1" and rest: "router_run ops r1 = Inr r'"
    by (auto split: sum.splits)
  have "queues_bounded r1"
    unfolding queues_bounded_def
  proof
    fix pk
    from router_step_queue [OF s Cons.prems(2), of pk] Cons.prems(3)
    show "length (queue_of r1 pk) \<le> MaxPendingSendQueueSize"
      by (auto simp: queues_bounded_def)
  qed
  from Cons.IH [OF rest router_step_keyed [OF s Cons.prems(2)] this] show ?case .
qed


text \<open>
  C3. For a peer with no link session, \<open>SendToOrQueue\<close> returns, touches no other
  peer's queue and keeps every queue within \<open>MaxPendingSendQueueSize\<close> = 8 messages.
  When the message encodes, the call returns true and a queue of fewer than 8 messages
  gets exactly the encoded message appended at the back, while a queue that already
  holds 8 keeps its contents and a queue-full warning is logged. (When the message does
  not encode the call returns false and queues nothing.)
\<close>

theorem SendToOrQueue_queue_cap:
  assumes "no_session x r remote"
  shows "\<exists>b r'. SendToOrQueue x r remote msg = Inr (b, r')
     \<and> (\<forall>other. other \<noteq> remote \<longrightarrow> queue_of r' other = queue_of r other)
     \<and> (queues_bounded r \<longrightarrow> queues_bounded r')
     \<and> (msg_BEncode x msg = None \<longrightarrow> \<not> b \<and> queue_of r' remote = queue_of r remote)
     \<and> (\<forall>buf. msg_BEncode x msg = Some buf \<longrightarrow> b
           \<and> (length (queue_of r remote) < 8 \<longrightarrow> queue_of r' remote = queue_of r remote @ [buf])
           \<and> (length (queue_of r remote) \<ge> 8 \<longrightarrow>
                 queue_of r' remote = queue_of r remote
                 \<and> LogWarn_queue_full remote \<in> set (new_events r r')))"
proof -
  have "\<exists>b r'. SendToOrQueue x r remote msg = Inr (b, r')"
    by (auto simp: SendToOrQueue_no_session [OF assms] Let_def split: option.splits)
  then obtain b r' where res: "SendToOrQueue x r remote msg = Inr (b, r')"
    by blast
  have others: "\<forall>other. other \<noteq> remote \<longrightarrow> queue_of r' other = queue_of r other"
    using res unfolding SendToOrQueue_no_session [OF assms]
    by (auto simp: Let_def queue_of_def try_connect_queue emit_fields split: option.splits if_splits)
  have bounded: "queues_bounded r \<longrightarrow> queues_bounded r'"
  proof
    assume bd: "queues_bounded r"
    show "queues_bounded r'"
      unfolding queues_bounded_def
    proof
      fix pk
      from SendToOrQueue_effect(3) [OF res, of pk] bd
      show "length (queue_of r' pk) \<le> MaxPendingSendQueueSize"
        by (auto simp: queues_bounded_def)
    qed
  qed
  have fail: "msg_BEncode x msg = None \<longrightarrow> \<not> b \<and> queue_of r' remote = queue_of r remote"
    using res unfolding SendToOrQueue_no_session [OF assms]
    by (auto simp: queue_of_def)
  have ok: "\<forall>buf. msg_BEncode x msg = Some buf \<longrightarrow> b
           \<and> (length (queue_of r remote) < 8 \<longrightarrow> queue_of r' remote = queue_of r remote @ [buf])
           \<and> (length (queue_of r remote) \<ge> 8 \<longrightarrow>
                 queue_of r' remote = queue_of r remote
                 \<and> LogWarn_queue_full remote \<in> set (new_events r r'))"
    using res unfolding SendToOrQueue_no_session [OF assms]
    by (auto simp: Let_def queue_of_def try_connect_queue emit_fields MaxPendingSendQueueSize_def
        new_events_def llarp_router_try_connect_def emit_def
        split: option.splits if_splits)
  show ?thesis
    apply (rule exI [of _ b])
    apply (rule exI [of _ r'])
    apply (intro conjI)
        apply (rule res)
       apply (rule others)
      apply (rule bounded)
     apply (rule fail)
    apply (rule ok)
    done
qed

text \<open>The ninth message for a peer whose queue holds eight: dropped, with the warning.\<close>

theorem SendToOrQueue_queue_cap_witness:
  "no_session ex_rext (ex_router_q (replicate 8 [1])) 7
   \<and> msg_BEncode ex_rext 2 = Some [2]
   \<and> length (queue_of (ex_router_q (replicate 8 [1])) 7) = 8
   \<and> (\<exists>b r'. SendToOrQueue ex_rext (ex_router_q (replicate 8 [1])) 7 2 = Inr (b, r')
         \<and> b \<and> queue_of r' 7 = replicate 8 [1]
         \<and> LogWarn_queue_full 7 \<in> set (new_events (ex_router_q (replicate 8 [1])) r'))"
proof -
  have ns: "no_session ex_rext (ex_router_q (replicate 8 [1])) 7"
    by (simp add: no_session_def ex_rext_def ex_router_q_def ex_router_def)
  have enc: "msg_BEncode ex_rext 2 = Some [2]" by (simp add: ex_rext_def)
  have len: "length (queue_of (ex_router_q (replicate 8 [1])) 7) = 8"
    and q: "queue_of (ex_router_q (replicate 8 [1])) 7 = replicate 8 [1]"
    by (simp_all add: queue_of_def ex_router_q_def)
  from SendToOrQueue_queue_cap [OF ns, of 2] enc len q ns show ?thesis
    by auto
qed

text \<open>
  C9. \<open>pendingEstablishJobs\<close> holds at most one job per peer, stored under the pubkey
  of its RC. \<open>llarp_router_try_connect\<close> returns false and leaves the jobs as they are
  when the peer has a pending job, and otherwise returns true and makes one. A handler
  after which a peer's job is gone has run \<open>FlushOutboundFor\<close> for that peer (it logs
  the flush), or is the connect timeout of that peer with no tries left. So from
  \<open>try_connect\<close> on, \<open>HasPendingConnectJob\<close> holds after every handler of a run in which
  no handler flushes the peer's queue, times out its connect attempt or completes the
  verification of its RC.
\<close>

theorem pending_connect_job_kept:
  "(HasPendingConnectJob r (pubkey remote) \<longrightarrow>
       \<not> fst (llarp_router_try_connect r remote n)
       \<and> pendingEstablishJobs (snd (llarp_router_try_connect r remote n)) = pendingEstablishJobs r)
   \<and> (\<not> HasPendingConnectJob r (pubkey remote) \<longrightarrow>
       fst (llarp_router_try_connect r remote n)
       \<and> HasPendingConnectJob (snd (llarp_router_try_connect r remote n)) (pubkey remote))
   \<and> (jobs_keyed r \<and> HasPendingConnectJob r pk \<and> router_step x op r = Inr r'
        \<and> \<not> HasPendingConnectJob r' pk \<longrightarrow>
        LogDebug_flush_outbound pk \<in> set (new_events r r')
        \<or> (op = Op_OnConnectTimeout pk \<and> (\<exists>j. pendingEstablishJobs r pk = Some j \<and> triesLeft j = 0)))
   \<and> (jobs_keyed r \<and> (\<forall>xo \<in> set ops. \<not> names_peer (snd xo) (pubkey remote)) \<longrightarrow>
        (\<forall>m rm. 0 < m \<and> router_run (take m ((x, Op_try_connect remote n) # ops)) r = Inr rm \<longrightarrow>
           HasPendingConnectJob rm (pubkey remote)))"
proof (intro conjI impI allI)
  assume "HasPendingConnectJob r (pubkey remote)"
  then show "\<not> fst (llarp_router_try_connect r remote n)"
    and "pendingEstablishJobs (snd (llarp_router_try_connect r remote n)) = pendingEstablishJobs r"
    by (simp_all add: llarp_router_try_connect_def emit_def)
next
  assume "\<not> HasPendingConnectJob r (pubkey remote)"
  then show "fst (llarp_router_try_connect r remote n)"
    and "HasPendingConnectJob (snd (llarp_router_try_connect r remote n)) (pubkey remote)"
    by (simp_all add: llarp_router_try_connect_def emit_def HasPendingConnectJob_def)
next
  assume "jobs_keyed r \<and> HasPendingConnectJob r pk \<and> router_step x op r = Inr r'
        \<and> \<not> HasPendingConnectJob r' pk"
  then show "LogDebug_flush_outbound pk \<in> set (new_events r r')
        \<or> (op = Op_OnConnectTimeout pk \<and> (\<exists>j. pendingEstablishJobs r pk = Some j \<and> triesLeft j = 0))"
    using router_step_erased [of x op r r' pk] by (simp add: HasPendingConnectJob_def)
next
  fix m rm
  assume a: "jobs_keyed r \<and> (\<forall>xo \<in> set ops. \<not> names_peer (snd xo) (pubkey remote))"
    and b: "0 < m \<and> router_run (take m ((x, Op_try_connect remote n) # ops)) r = Inr rm"
  from b obtain m' where m: "m = Suc m'" by (cases m) auto
  let ?r1 = "snd (llarp_router_try_connect r remote n)"
  from b m have run: "router_run (take m' ops) ?r1 = Inr rm" by simp
  have keyed: "jobs_keyed ?r1"
    using router_step_keyed [of x "Op_try_connect remote n" r ?r1] a by simp
  have pending: "HasPendingConnectJob ?r1 (pubkey remote)"
    by (simp add: try_connect_pending HasPendingConnectJob_def)
  have "\<forall>xo \<in> set (take m' ops). \<not> names_peer (snd xo) (pubkey remote)"
    using a by (meson in_set_takeD)
  from router_run_kept [OF run keyed pending this]
  show "HasPendingConnectJob rm (pubkey remote)" .
qed

text \<open>A connect attempt, a queued message and the first \<open>Attempt\<close>: the job is still pending.\<close>

theorem pending_connect_job_kept_witness:
  "jobs_keyed (ex_router [])
   \<and> \<not> names_peer (Op_SendToOrQueue 7 2) 7 \<and> \<not> names_peer (Op_on_try_connecting 7) 7
   \<and> (\<exists>rm. router_run [(ex_rext, Op_try_connect (ex_rc 7 [ex_addr] [1]) 10),
                        (ex_rext, Op_SendToOrQueue 7 2), (ex_rext, Op_on_try_connecting 7)]
               (ex_router []) = Inr rm
          \<and> HasPendingConnectJob rm 7)"
proof -
  let ?ops = "[(ex_rext, Op_SendToOrQueue 7 2), (ex_rext, Op_on_try_connecting 7)]"
  let ?rc = "ex_rc 7 [ex_addr] [1]"
  have k: "jobs_keyed (ex_router [])" by (simp add: jobs_keyed_def ex_router_def)
  have np: "\<forall>xo \<in> set ?ops. \<not> names_peer (snd xo) (pubkey ?rc)" by simp
  have pk: "pubkey ?rc = 7" by (simp add: ex_rc_def)
  have run: "\<exists>rm. router_run ((ex_rext, Op_try_connect ?rc 10) # ?ops) (ex_router []) = Inr rm"
    by (simp add: llarp_router_try_connect_def HasPendingConnectJob_def ex_router_def emit_def
        SendToOrQueue_def ex_rext_def Let_def MaxPendingSendQueueSize_def Get_def ex_db_def
        on_try_connecting_def Attempt_def ex_rc_def)
  then obtain rm where rm: "router_run ((ex_rext, Op_try_connect ?rc 10) # ?ops) (ex_router []) = Inr rm"
    by blast
  from pending_connect_job_kept [where r = "ex_router []" and remote = ?rc and ops = ?ops
      and x = ex_rext and n = 10] k np
  have "\<forall>m rm. 0 < m \<and> router_run (take m ((ex_rext, Op_try_connect ?rc 10) # ?ops)) (ex_router []) = Inr rm \<longrightarrow>
           HasPendingConnectJob rm (pubkey ?rc)"
    by blast
  from this [rule_format, of 3 rm] rm have "HasPendingConnectJob rm 7" by (simp add: pk)
  with rm k show ?thesis by auto
qed

section \<open>Properties of the path context\<close>

lemma equal_range_MapPut:
  "equal_range (MapPut m k v) k' = equal_range m k' @ (if k = k' then [v] else [])"
  by (simp add: equal_range_def MapPut_def)

lemma find_append_None:
  "find P xs = None \<Longrightarrow> find P (xs @ ys) = find P ys"
  by (induction xs) (auto split: if_splits)

text \<open>
  C4 (amended). After \<open>PutTransitHop(h)\<close> the hop is indexed under both \<open>h.info.txID\<close>
  and \<open>h.info.rxID\<close>, and \<open>GetByUpstream(h.info.upstream, h.info.txID)\<close> and
  \<open>GetByDownstream(h.info.downstream, h.info.rxID)\<close> both return \<open>h\<close>, provided that the
  lookup among our own paths gives nothing for the txID key, that no transit hop already
  indexed under \<open>h.info.txID\<close> has the upstream of \<open>h\<close>, and that none already indexed
  under \<open>h.info.rxID\<close> has the downstream of \<open>h\<close>.
\<close>

theorem PutTransitHop_lookup:
  assumes own: "MapGet (m_OurPaths ctx) (txID (info h)) (\<lambda>s. True)
                  (\<lambda>p. map_option OwnPath (ps p (upstream (info h)) (txID (info h)))) = None"
    and up: "\<forall>h' \<in> set (equal_range (m_TransitPaths ctx) (txID (info h))).
               upstream (info h') \<noteq> upstream (info h)"
    and down: "\<forall>h' \<in> set (equal_range (m_TransitPaths ctx) (rxID (info h))).
               downstream (info h') \<noteq> downstream (info h)"
  shows "(txID (info h), h) \<in> set (m_TransitPaths (PutTransitHop ctx h))
     \<and> (rxID (info h), h) \<in> set (m_TransitPaths (PutTransitHop ctx h))
     \<and> GetByUpstream ps (PutTransitHop ctx h) (upstream (info h)) (txID (info h)) = Some (Transit h)
     \<and> GetByDownstream (PutTransitHop ctx h) (downstream (info h)) (rxID (info h)) = Some (Transit h)"
proof -
  let ?m = "m_TransitPaths ctx"
  let ?m' = "m_TransitPaths (PutTransitHop ctx h)"
  have m': "?m' = MapPut (MapPut ?m (txID (info h)) h) (rxID (info h)) h"
    by (simp add: PutTransitHop_def)
  have ours: "m_OurPaths (PutTransitHop ctx h) = m_OurPaths ctx"
    by (simp add: PutTransitHop_def)
  have fu: "find (\<lambda>hop. upstream (info hop) = upstream (info h)) (equal_range ?m (txID (info h))) = None"
    using up by (simp add: find_None_iff)
  have fd: "find (\<lambda>hop. downstream (info hop) = downstream (info h)) (equal_range ?m (rxID (info h))) = None"
    using down by (simp add: find_None_iff)
  have er_tx: "equal_range ?m' (txID (info h)) =
      equal_range ?m (txID (info h)) @ (h # (if rxID (info h) = txID (info h) then [h] else []))"
    by (simp add: m' equal_range_MapPut)
  have er_rx: "equal_range ?m' (rxID (info h)) =
      equal_range ?m (rxID (info h)) @ ((if txID (info h) = rxID (info h) then [h] else []) @ [h])"
    by (simp add: m' equal_range_MapPut)
  have gu: "MapGet ?m' (txID (info h)) (\<lambda>hop. upstream (info hop) = upstream (info h))
              (\<lambda>h. Some (Transit h)) = Some (Transit h)"
    by (simp add: MapGet_def er_tx find_append_None [OF fu])
  have gd: "MapGet ?m' (rxID (info h)) (\<lambda>hop. downstream (info hop) = downstream (info h))
              (\<lambda>h. Some (Transit h)) = Some (Transit h)"
    by (simp add: MapGet_def er_rx find_append_None [OF fd])
  show ?thesis
    using own gu gd
    by (simp add: GetByUpstream_def GetByDownstream_def ours) (simp add: m' MapPut_def)
qed

text \<open>
  A hop put into an empty context is found by both lookups.
\<close>

theorem PutTransitHop_lookup_witness:
  "MapGet (m_OurPaths ex_ctx) 1 (\<lambda>s. True) (\<lambda>p. map_option OwnPath (ex_no_own_path p 10 1)) = None
   \<and> equal_range (m_TransitPaths ex_ctx) 1 = []
   \<and> equal_range (m_TransitPaths ex_ctx) 2 = []
   \<and> GetByUpstream ex_no_own_path (PutTransitHop ex_ctx (ex_hop 1 2 10 20)) 10 1
        = Some (Transit (ex_hop 1 2 10 20))
   \<and> GetByDownstream (PutTransitHop ex_ctx (ex_hop 1 2 10 20)) 20 2
        = Some (Transit (ex_hop 1 2 10 20))"
proof -
  have own: "MapGet (m_OurPaths ex_ctx) (txID (info (ex_hop 1 2 10 20))) (\<lambda>s. True)
               (\<lambda>p. map_option OwnPath (ex_no_own_path p (upstream (info (ex_hop 1 2 10 20)))
                  (txID (info (ex_hop 1 2 10 20))))) = None"
    by (simp add: MapGet_def equal_range_def ex_ctx_def)
  have e1: "equal_range (m_TransitPaths ex_ctx) 1 = []" and e2: "equal_range (m_TransitPaths ex_ctx) 2 = []"
    by (simp_all add: equal_range_def ex_ctx_def)
  have up: "\<forall>h' \<in> set (equal_range (m_TransitPaths ex_ctx) (txID (info (ex_hop 1 2 10 20)))).
               upstream (info h') \<noteq> upstream (info (ex_hop 1 2 10 20))"
    and down: "\<forall>h' \<in> set (equal_range (m_TransitPaths ex_ctx) (rxID (info (ex_hop 1 2 10 20)))).
               downstream (info h') \<noteq> downstream (info (ex_hop 1 2 10 20))"
    by (simp_all add: equal_range_def ex_ctx_def)
  from PutTransitHop_lookup [where ctx = ex_ctx and h = "ex_hop 1 2 10 20" and ps = ex_no_own_path]
    own up down
  have "GetByUpstream ex_no_own_path (PutTransitHop ex_ctx (ex_hop 1 2 10 20))
          (upstream (info (ex_hop 1 2 10 20))) (txID (info (ex_hop 1 2 10 20)))
          = Some (Transit (ex_hop 1 2 10 20))
        \<and> GetByDownstream (PutTransitHop ex_ctx (ex_hop 1 2 10 20))
          (downstream (info (ex_hop 1 2 10 20))) (rxID (info (ex_hop 1 2 10 20)))
          = Some (Transit (ex_hop 1 2 10 20))"
    by blast
  moreover have "MapGet (m_OurPaths ex_ctx) 1 (\<lambda>s. True)
       (\<lambda>p. map_option OwnPath (ex_no_own_path p 10 1)) = None"
    by (simp add: MapGet_def equal_range_def ex_ctx_def)
  moreover have "upstream (info (ex_hop 1 2 10 20)) = 10" "txID (info (ex_hop 1 2 10 20)) = 1"
    "downstream (info (ex_hop 1 2 10 20)) = 20" "rxID (info (ex_hop 1 2 10 20)) = 2"
    by (simp_all add: ex_hop_def)
  ultimately show ?thesis using e1 e2 by simp
qed

text \<open>
  C4 as stated fails: with no own path at all, a hop put after another transit hop of the
  same txID and the same upstream is shadowed by it, since the lookup returns the first
  match of the key's range.
\<close>

theorem PutTransitHop_shadowed_counterexample:
  "m_OurPaths (PutTransitHop ex_ctx (ex_hop 1 2 10 20)) = []
   \<and> upstream (info (ex_hop 1 3 10 30)) = 10 \<and> txID (info (ex_hop 1 3 10 30)) = 1
   \<and> GetByUpstream ex_no_own_path
        (PutTransitHop (PutTransitHop ex_ctx (ex_hop 1 2 10 20)) (ex_hop 1 3 10 30)) 10 1
       = Some (Transit (ex_hop 1 2 10 20))
   \<and> GetByUpstream ex_no_own_path
        (PutTransitHop (PutTransitHop ex_ctx (ex_hop 1 2 10 20)) (ex_hop 1 3 10 30)) 10 1
       \<noteq> Some (Transit (ex_hop 1 3 10 30))"
  by (simp add: GetByUpstream_def MapGet_def equal_range_def PutTransitHop_def MapPut_def
      ex_ctx_def ex_hop_def)

section \<open>Properties of the path tick\<close>

lemma latency_probe_keeps:
  "p_status (fst (latency_probe x now dlt p)) = p_status p"
  "p_role (fst (latency_probe x now dlt p)) = p_role p"
  "m_LastRecvMessage (fst (latency_probe x now dlt p)) = m_LastRecvMessage p"
  by (simp_all add: latency_probe_def)

lemma fail_and_timeout_result:
  "p_status (fst (fail_and_timeout now p evs)) = ePathTimeout"
  "MarkPathFail \<in> set (snd (fail_and_timeout now p evs))"
  by (simp_all add: fail_and_timeout_def EnterState_def)

lemma Tick_established:
  assumes "p_status p = ePathEstablished" and "now < ExpireTime p"
  shows "Tick x now p =
     check_dead x now (now - m_LastLatencyTestTime p)
       (fst (latency_probe x now (now - m_LastLatencyTestTime p) p))
       (snd (latency_probe x now (now - m_LastLatencyTestTime p) p))"
proof -
  from assms(2) have "\<not> ExpireTime p \<le> now" by (simp add: not_le)
  with assms(1) show ?thesis
    by (simp add: Tick_def Expired_def Let_def latency_probe_keeps split_beta)
qed

text \<open>
  C7 (amended). For an established path that has not reached \<open>ExpireTime()\<close>,
  \<open>Tick(now)\<close> moves the path to Timeout (and marks the path failed) when the path
  supports neither the Exit nor the ServiceEndpoint role, a message has been received
  (\<open>m_LastRecvMessage\<close> is not 0) more than \<open>PATH_ALIVE_TIMEOUT\<close> before \<open>now\<close>, and
  \<open>CheckForDead\<close> returns true or is not registered; and, whatever the roles, when no
  message has been received at all (\<open>m_LastRecvMessage\<close> is 0) and at least 10 seconds
  have passed since the last latency test was sent. A path that supports the Exit or
  ServiceEndpoint role and whose last message is older than \<open>PATH_ALIVE_TIMEOUT\<close> stays
  Established.
\<close>

theorem Tick_dead_check:
  assumes "p_status p = ePathEstablished" and "now < ExpireTime p"
  shows "(\<not> SupportsAnyRoles p {ePathRoleExit, ePathRoleSVC}
          \<and> m_LastRecvMessage p \<noteq> 0 \<and> m_LastRecvMessage p < now
          \<and> PATH_ALIVE_TIMEOUT x < now - m_LastRecvMessage p
          \<and> (case m_CheckForDead x of
               None \<Rightarrow> True
             | Some chk \<Rightarrow> chk (fst (latency_probe x now (now - m_LastLatencyTestTime p) p))
                             (now - m_LastLatencyTestTime p))
          \<longrightarrow> p_status (fst (Tick x now p)) = ePathTimeout \<and> MarkPathFail \<in> set (snd (Tick x now p)))
     \<and> (m_LastRecvMessage p = 0 \<and> 10000 \<le> now - m_LastLatencyTestTime p
          \<longrightarrow> p_status (fst (Tick x now p)) = ePathTimeout \<and> MarkPathFail \<in> set (snd (Tick x now p)))
     \<and> (SupportsAnyRoles p {ePathRoleExit, ePathRoleSVC}
          \<and> m_LastRecvMessage p \<noteq> 0 \<and> m_LastRecvMessage p < now
          \<and> PATH_ALIVE_TIMEOUT x < now - m_LastRecvMessage p
          \<longrightarrow> p_status (fst (Tick x now p)) = ePathEstablished)"
  unfolding Tick_established [OF assms]
  using assms(1)
  by (auto simp: check_dead_def latency_probe_keeps fail_and_timeout_result SupportsAnyRoles_def
      split: option.splits)

text \<open>
  A path without roles, last heard of 99 seconds ago, no predicate registered: Timeout.
\<close>

theorem Tick_dead_check_witness:
  "p_status (ex_path ePathEstablished {} 1000) = ePathEstablished
   \<and> 100000 < ExpireTime (ex_path ePathEstablished {} 1000)
   \<and> \<not> SupportsAnyRoles (ex_path ePathEstablished {} 1000) {ePathRoleExit, ePathRoleSVC}
   \<and> PATH_ALIVE_TIMEOUT ex_path_externals < 100000 - m_LastRecvMessage (ex_path ePathEstablished {} 1000)
   \<and> p_status (fst (Tick ex_path_externals 100000 (ex_path ePathEstablished {} 1000))) = ePathTimeout"
proof -
  have a: "p_status (ex_path ePathEstablished {} 1000) = ePathEstablished"
    and b: "100000 < ExpireTime (ex_path ePathEstablished {} 1000)"
    by (simp_all add: ex_path_def ExpireTime_def)
  from Tick_dead_check [OF a b, of ex_path_externals] a b show ?thesis
    by (simp add: ex_path_def ex_path_externals_def SupportsAnyRoles_def)
qed

text \<open>
  C7 as stated fails: the same path with the Exit role is left as it is by \<open>Tick\<close>.
\<close>

theorem Tick_exit_path_counterexample:
  "p_status (ex_path ePathEstablished {ePathRoleExit} 1000) = ePathEstablished
   \<and> \<not> Expired (ex_path ePathEstablished {ePathRoleExit} 1000) 100000
   \<and> m_LastRecvMessage (ex_path ePathEstablished {ePathRoleExit} 1000) = 1000
   \<and> PATH_ALIVE_TIMEOUT ex_path_externals < 100000 - 1000
   \<and> m_CheckForDead ex_path_externals = None
   \<and> Tick ex_path_externals 100000 (ex_path ePathEstablished {ePathRoleExit} 1000)
       = (ex_path ePathEstablished {ePathRoleExit} 1000, [])"
  by (simp add: Tick_def Expired_def ExpireTime_def check_dead_def latency_probe_def
      SupportsAnyRoles_def ex_path_def ex_path_externals_def Let_def)

section \<open>Properties of the DHT handlers\<close>

text \<open>
  The direct handler \<open>FindRouterMessage::HandleMessage\<close> returns false, with the replies
  as they were and nothing but a warning, when \<open>allowTransit\<close> is not set; and it returns
  false, with the replies as they were and no lookup forwarded, when the pair
  \<open>(From, txid)\<close> is among the pending lookups. The path-relayed handler
  \<open>RelayedFindRouterMessage::HandleMessage\<close> reads neither \<open>allowTransit\<close> nor the
  pending lookups: its result is the same whatever they are.
\<close>

lemma FindRouter_transit_and_replay:
  "(\<not> allowTransit dht \<longrightarrow>
       FindRouterMessage_HandleMessage x dht m replies
         = (False, replies, [LogWarn_no_dht_transit (From m)]))
   \<and> (HasPendingLookupFrom (pendingRouterLookups dht) (From m, txid m) \<longrightarrow>
        \<not> fst (FindRouterMessage_HandleMessage x dht m replies)
        \<and> fst (snd (FindRouterMessage_HandleMessage x dht m replies)) = replies
        \<and> filter is_forwarded_lookup (snd (snd (FindRouterMessage_HandleMessage x dht m replies))) = [])
   \<and> RelayedFindRouterMessage_HandleMessage x (dht\<lparr>allowTransit := a, pendingRouterLookups := ps\<rparr>) m replies
       = RelayedFindRouterMessage_HandleMessage x dht m replies"
proof (intro conjI impI)
  assume "\<not> allowTransit dht"
  then show "FindRouterMessage_HandleMessage x dht m replies
         = (False, replies, [LogWarn_no_dht_transit (From m)])"
    by (simp add: FindRouterMessage_HandleMessage_def)
next
  assume p: "HasPendingLookupFrom (pendingRouterLookups dht) (From m, txid m)"
  then show "\<not> fst (FindRouterMessage_HandleMessage x dht m replies)"
    and "fst (snd (FindRouterMessage_HandleMessage x dht m replies)) = replies"
    and "filter is_forwarded_lookup (snd (snd (FindRouterMessage_HandleMessage x dht m replies))) = []"
    by (simp_all add: FindRouterMessage_HandleMessage_def)
next
  show "RelayedFindRouterMessage_HandleMessage x (dht\<lparr>allowTransit := a, pendingRouterLookups := ps\<rparr>) m replies
       = RelayedFindRouterMessage_HandleMessage x dht m replies"
    by (simp add: RelayedFindRouterMessage_HandleMessage_def split: option.splits)
qed

text \<open>
  A direct message to a node without transit, and a replayed one to a node with transit.
\<close>

lemma FindRouter_transit_and_replay_example:
  "\<not> allowTransit ex_dht
   \<and> HasPendingLookupFrom (pendingRouterLookups (ex_dht\<lparr>allowTransit := True\<rparr>)) (From (ex_frm 7), txid (ex_frm 7))
   \<and> FindRouterMessage_HandleMessage ex_dht_externals ex_dht (ex_frm 7) []
       = (False, [], [LogWarn_no_dht_transit 5])
   \<and> \<not> fst (FindRouterMessage_HandleMessage ex_dht_externals (ex_dht\<lparr>allowTransit := True\<rparr>) (ex_frm 7) [])"
  using FindRouter_transit_and_replay [of ex_dht ex_dht_externals "ex_frm 7" "[]"]
    FindRouter_transit_and_replay [of "ex_dht\<lparr>allowTransit := True\<rparr>" ex_dht_externals "ex_frm 7" "[]"]
  by (simp add: ex_dht_def ex_frm_def HasPendingLookupFrom_def)

text \<open>
  C2. The path-relayed handler misses both checks of the direct one. On a node that
  does not allow transit, and with the pair \<open>(From, txid)\<close> already pending, it answers a
  lookup for a router of the node database with true and a reply that carries the RC,
  and for an unknown router it returns true and forwards the lookup to the closest peer.
\<close>

theorem RelayedFindRouter_answers_without_transit:
  "\<not> allowTransit ex_dht
   \<and> HasPendingLookupFrom (pendingRouterLookups ex_dht) (From (ex_frm 7), txid (ex_frm 7))
   \<and> RelayedFindRouterMessage_HandleMessage ex_dht_externals ex_dht (ex_frm 7) []
       = (True, [GotRouterMessage 7 9 [ex_rc 7 [ex_addr] [1]] False], [])
   \<and> RelayedFindRouterMessage_HandleMessage ex_dht_externals ex_dht (ex_frm 8) []
       = (True, [], [LookupRouterForPath 8 9 1 11])"
  by (simp add: RelayedFindRouterMessage_HandleMessage_def ex_dht_def ex_frm_def ex_dht_externals_def
      HasPendingLookupFrom_def Get_def ex_db_def)

end
